theory Spec2Isabelle
  imports Main "HOL-Library.AList" "HOL-Library.Word" "HOL-Library.Multiset"
begin

section \<open>JavaScript values, strings and objects\<close>

text \<open>
  The repository is JavaScript: a serverless proxy function (\<open>handler\<close>), the
  storage dispatcher \<open>FileService\<close> and a React file browser. Strings are byte lists
  (header names, HTTP methods and paths are ASCII). A JavaScript value that can arrive as
  \<open>req.body\<close> is one of the cases of \<open>js_value\<close>; numbers are the integer-valued
  ones (a parsed JSON body never holds \<open>NaN\<close>).
\<close>

type_synonym byte = "8 word"

datatype js_value =
    JUndefined
  | JNull
  | JBool bool
  | JNum int
  | JStr string
  | JBuffer "byte list"
  | JArr "js_value list"
  | JObj "(string \<times> js_value) list"

text \<open>A thrown \<open>Error\<close>; the handler reads only its \<open>message\<close>.\<close>

datatype js_error = Error (message: string)

text \<open>Truthiness, as \<open>if (req.body)\<close> tests it.\<close>

fun truthy :: "js_value \<Rightarrow> bool" where
  "truthy JUndefined = False"
| "truthy JNull = False"
| "truthy (JBool b) = b"
| "truthy (JNum n) = (n \<noteq> 0)"
| "truthy (JStr s) = (s \<noteq> [])"
| "truthy (JBuffer b) = True"
| "truthy (JArr xs) = True"
| "truthy (JObj kvs) = True"

text \<open>The \<open>typeof\<close> operator: \<open>null\<close>, a Buffer, an array and a plain object are all \<open>'object'\<close>.\<close>

fun typeof :: "js_value \<Rightarrow> string" where
  "typeof JUndefined = ''undefined''"
| "typeof JNull = ''object''"
| "typeof (JBool b) = ''boolean''"
| "typeof (JNum n) = ''number''"
| "typeof (JStr s) = ''string''"
| "typeof (JBuffer b) = ''object''"
| "typeof (JArr xs) = ''object''"
| "typeof (JObj kvs) = ''object''"

text \<open>\<open>String.prototype.toLowerCase\<close> on ASCII text.\<close>

definition toLowerCase_char :: "char \<Rightarrow> char" where
  "toLowerCase_char c =
     (case map_of (zip ''ABCDEFGHIJKLMNOPQRSTUVWXYZ'' ''abcdefghijklmnopqrstuvwxyz'') c of
        Some l \<Rightarrow> l
      | None \<Rightarrow> c)"

definition toLowerCase :: "string \<Rightarrow> string" where
  "toLowerCase s = map toLowerCase_char s"

text \<open>\<open>Array.prototype.join\<close> on an array of strings.\<close>

fun join :: "string \<Rightarrow> string list \<Rightarrow> string" where
  "join sep [] = []"
| "join sep [x] = x"
| "join sep (x # y # ys) = x @ sep @ join sep (y # ys)"

text \<open>
  A plain object built with \<open>{}\<close> and \<open>obj[key] = value\<close> is an association list in
  insertion order: assigning an existing key replaces its value in place, a new key is
  appended. Assigning the key \<open>__proto__\<close> on an object literal runs the prototype
  setter and creates no own property, so the entry is not stored.
\<close>

definition obj_set :: "string \<Rightarrow> 'v \<Rightarrow> (string \<times> 'v) list \<Rightarrow> (string \<times> 'v) list" where
  "obj_set k v obj = (if k = ''__proto__'' then obj else AList.update k v obj)"

section \<open>The WebDAV proxy: \<open>handler(req, res)\<close>\<close>

text \<open>
  \<open>req.query.path\<close> of the catch-all route: absent, an array of segments, or one
  string. \<open>req.headers\<close> is given by its \<open>Object.entries\<close>; a value is a string or
  an array of strings. \<open>req.body\<close> is the value the framework's body parser has made
  of the request body (\<open>undefined\<close> when there is none).
\<close>

datatype query_path = PathUndefined | PathArray "string list" | PathString string

datatype header_value = Single string | Multi "string list"

record request =
  query_path :: query_path
  req_method :: string
  req_headers :: "(string \<times> header_value) list"
  req_body :: js_value

text \<open>One call \<open>fetch(targetUrl, fetchOptions)\<close>; \<open>fc_body = None\<close> when
  \<open>fetchOptions.body\<close> was never assigned.\<close>

record fetch_call =
  fc_url :: string
  fc_method :: string
  fc_headers :: "(string \<times> header_value) list"
  fc_redirect :: string
  fc_body :: "js_value option"

text \<open>
  What \<open>fetch\<close> resolves to: the status, the entries that \<open>headers.forEach\<close>
  visits (as \<open>(key, val)\<close>), and the outcome of \<open>arrayBuffer()\<close>, which may reject.
\<close>

record upstream_response =
  up_status :: nat
  up_headers :: "(string \<times> string) list"
  up_arrayBuffer :: "js_error + byte list"

text \<open>
  The runtime the handler runs in: \<open>fetch\<close> (rejecting is \<open>Inl\<close>) and
  \<open>JSON.stringify\<close>.
\<close>

record env =
  fetch :: "fetch_call \<Rightarrow> js_error + upstream_response"
  JSON_stringify :: "js_value \<Rightarrow> string"

text \<open>
  The response object \<open>res\<close>. Node keeps response headers under their lower-cased
  names: \<open>setHeader\<close> replaces a header of the same name whatever its case. Only the
  headers the handler sets itself are recorded; what the helpers \<open>end\<close>, \<open>send\<close>
  and \<open>json\<close> add on their own (such as a content type) is the framework's.
\<close>

datatype res_body =
    NotSent
  | End
  | Send "byte list"
  | Json "(string \<times> js_value) list"

record response =
  statusCode :: nat
  res_headers :: "(string \<times> string) list"
  body :: res_body

definition new_response :: response where
  "new_response = \<lparr>statusCode = 200, res_headers = [], body = NotSent\<rparr>"

definition setHeader :: "string \<Rightarrow> string \<Rightarrow> response \<Rightarrow> response" where
  "setHeader k v res = res\<lparr>res_headers := AList.update (toLowerCase k) v (res_headers res)\<rparr>"

definition getHeader :: "response \<Rightarrow> string \<Rightarrow> string option" where
  "getHeader res k = map_of (res_headers res) (toLowerCase k)"

definition status :: "nat \<Rightarrow> response \<Rightarrow> response" where
  "status n res = res\<lparr>statusCode := n\<rparr>"

definition end_res :: "response \<Rightarrow> response" where
  "end_res res = res\<lparr>body := End\<rparr>"

definition send :: "byte list \<Rightarrow> response \<Rightarrow> response" where
  "send b res = res\<lparr>body := Send b\<rparr>"

definition json :: "(string \<times> js_value) list \<Rightarrow> response \<Rightarrow> response" where
  "json obj res = res\<lparr>body := Json obj\<rparr>"

subsection \<open>The constants of the handler\<close>

definition upstream_base :: string where
  "upstream_base = ''https://dav.jianguoyun.com/dav/''"

definition allow_methods :: string where
  "allow_methods = ''GET, POST, PUT, DELETE, OPTIONS, PROPFIND, MKCOL, MOVE, COPY, LOCK, UNLOCK''"

definition allow_headers :: string where
  "allow_headers = ''Authorization, Content-Type, Depth, If-Match, If-Modified-Since, If-None-Match, If-Unmodified-Since, Destination, Overwrite, User-Agent, X-Requested-With''"

definition forced_user_agent :: string where
  "forced_user_agent = ''WebDAVFS/1.0.0 (0.0.0) CloudMgr/1.0.0''"

definition dropped_request_headers :: "string list" where
  "dropped_request_headers =
     [''host'', ''origin'', ''referer'', ''cookie'', ''connection'', ''accept-encoding'']"

definition dropped_response_headers :: "string list" where
  "dropped_response_headers =
     [''content-encoding'', ''content-length'', ''access-control-allow-origin'']"

subsection \<open>The steps of the handler\<close>

text \<open>Lines 5-9: \<open>path\<close> defaults to \<open>[]\<close>; an array is joined, a string is used as it is.\<close>

definition pathStr :: "query_path \<Rightarrow> string" where
  "pathStr p =
     (case p of
        PathUndefined \<Rightarrow> join ''/'' []
      | PathArray segs \<Rightarrow> join ''/'' segs
      | PathString s \<Rightarrow> s)"

definition targetUrl :: "request \<Rightarrow> string" where
  "targetUrl req = upstream_base @ pathStr (query_path req)"

text \<open>Lines 12-14.\<close>

definition set_cors_headers :: "response \<Rightarrow> response" where
  "set_cors_headers res =
     setHeader ''Access-Control-Allow-Headers'' allow_headers
       (setHeader ''Access-Control-Allow-Methods'' allow_methods
         (setHeader ''Access-Control-Allow-Origin'' ''*'' res))"

text \<open>Lines 23-29: the loop over \<open>Object.entries(req.headers)\<close>, \<open>headers\<close> as accumulator.\<close>

fun filter_request_headers ::
  "(string \<times> header_value) list \<Rightarrow> (string \<times> header_value) list \<Rightarrow> (string \<times> header_value) list"
where
  "filter_request_headers [] headers = headers"
| "filter_request_headers ((key, val) # entries) headers =
     filter_request_headers entries
       (if toLowerCase key \<notin> set dropped_request_headers then obj_set key val headers
        else headers)"

text \<open>Line 32.\<close>

definition forwarded_headers :: "request \<Rightarrow> (string \<times> header_value) list" where
  "forwarded_headers req =
     obj_set ''user-agent'' (Single forced_user_agent)
       (filter_request_headers (req_headers req) [])"

text \<open>Lines 42-47.\<close>

definition forwarded_body :: "env \<Rightarrow> request \<Rightarrow> js_value option" where
  "forwarded_body e req =
     (if req_method req \<noteq> ''GET'' \<and> req_method req \<noteq> ''HEAD'' then
        (if truthy (req_body req) then
           Some (if typeof (req_body req) = ''object''
                 then JStr (JSON_stringify e (req_body req))
                 else req_body req)
         else None)
      else None)"

text \<open>Lines 35-47.\<close>

definition fetchOptions :: "env \<Rightarrow> request \<Rightarrow> fetch_call" where
  "fetchOptions e req =
     \<lparr>fc_url = targetUrl req,
      fc_method = req_method req,
      fc_headers = forwarded_headers req,
      fc_redirect = ''follow'',
      fc_body = forwarded_body e req\<rparr>"

text \<open>Lines 55-59: the callback of \<open>upstreamResponse.headers.forEach\<close>, entry by entry.\<close>

fun relay_headers :: "(string \<times> string) list \<Rightarrow> response \<Rightarrow> response" where
  "relay_headers [] res = res"
| "relay_headers ((key, val) # entries) res =
     relay_headers entries
       (if toLowerCase key \<notin> set dropped_response_headers then setHeader key val res
        else res)"

text \<open>Lines 65-68.\<close>

definition catch_error :: "js_error \<Rightarrow> response \<Rightarrow> response" where
  "catch_error err res = json [(''error'', JStr (message err))] (status 500 res)"

subsection \<open>The handler\<close>

text \<open>
  The handler returns the list of \<open>fetch\<close> calls it made and the response it left in
  \<open>res\<close>. An exception inside \<open>try\<close> comes from \<open>fetch\<close> or from
  \<open>arrayBuffer()\<close>; in both cases control goes to \<open>catch\<close> with \<open>res\<close> as the
  statements before the throw left it.
\<close>

definition handler :: "env \<Rightarrow> request \<Rightarrow> fetch_call list \<times> response" where
  "handler e req =
     (let res = set_cors_headers new_response in
      if req_method req = ''OPTIONS'' then ([], end_res (status 200 res))
      else
        (let call = fetchOptions e req in
         case fetch e call of
           Inl err \<Rightarrow> ([call], catch_error err res)
         | Inr upstreamResponse \<Rightarrow>
             (let res1 = status (up_status upstreamResponse) res;
                  res2 = relay_headers (up_headers upstreamResponse) res1
              in case up_arrayBuffer upstreamResponse of
                   Inl err \<Rightarrow> ([call], catch_error err res2)
                 | Inr arrayBuffer \<Rightarrow> ([call], send arrayBuffer res2))))"

section \<open>FileService: the drive list\<close>

text \<open>
  A drive configuration, with the fields the code reads and writes (\<open>id\<close>, \<open>name\<close>,
  \<open>type\<close>, \<open>path\<close>, \<open>url\<close>, \<open>username\<close>, \<open>password\<close>); a field that may be
  missing is an option. The object \<open>updates\<close> of \<open>updateDrive\<close> holds any subset
  of the fields.
\<close>

record drive =
  drive_id :: string
  drive_name :: string
  drive_type :: string
  drive_path :: "string option"
  drive_url :: "string option"
  drive_username :: "string option"
  drive_password :: "string option"

record drive_updates =
  upd_id :: "string option"
  upd_name :: "string option"
  upd_type :: "string option"
  upd_path :: "string option"
  upd_url :: "string option"
  upd_username :: "string option"
  upd_password :: "string option"

text \<open>
  The value that \<open>Preferences\<close> holds under the one key \<open>cloud_mgr_drives\<close>:
  \<open>None\<close> while the key was never written, \<open>Some ds\<close> for the JSON text of the
  list \<open>ds\<close> (\<open>JSON.parse\<close> gives back what \<open>JSON.stringify\<close> was given).
\<close>

type_synonym preferences = "drive list option"

definition defaultLocal :: drive where
  "defaultLocal =
     \<lparr>drive_id = ''local'', drive_name = ''Local Device'', drive_type = ''local'',
      drive_path = Some ''/'', drive_url = None, drive_username = None,
      drive_password = None\<rparr>"

text \<open>Lines 45-54.\<close>

definition getDrives :: "preferences \<Rightarrow> drive list" where
  "getDrives prefs =
     (let savedDrives = (case prefs of None \<Rightarrow> [] | Some ds \<Rightarrow> ds)
      in defaultLocal # savedDrives)"

text \<open>Lines 56-65: the returned list and the preferences after \<open>Preferences.set\<close>.\<close>

definition addDrive :: "drive \<Rightarrow> preferences \<Rightarrow> drive list \<times> preferences" where
  "addDrive driveConfig prefs =
     (let drives = getDrives prefs;
          newDrives = filter (\<lambda>d. drive_id d \<noteq> ''local'') drives @ [driveConfig]
      in (newDrives, Some newDrives))"

text \<open>Lines 67-74.\<close>

definition removeDrive :: "string \<Rightarrow> preferences \<Rightarrow> preferences" where
  "removeDrive driveId prefs =
     (let drives = getDrives prefs;
          newDrives = filter (\<lambda>d. drive_id d \<noteq> driveId \<and> drive_id d \<noteq> ''local'') drives
      in Some newDrives)"

text \<open>\<open>Array.prototype.findIndex\<close>; \<open>None\<close> stands for \<open>-1\<close>.\<close>

fun findIndex :: "('a \<Rightarrow> bool) \<Rightarrow> 'a list \<Rightarrow> nat option" where
  "findIndex p [] = None"
| "findIndex p (x # xs) = (if p x then Some 0 else map_option Suc (findIndex p xs))"

text \<open>The object spread \<open>{ ...d, ...updates }\<close>: a field of \<open>updates\<close> wins.\<close>

definition spread :: "drive \<Rightarrow> drive_updates \<Rightarrow> drive" where
  "spread d u =
     \<lparr>drive_id = (case upd_id u of None \<Rightarrow> drive_id d | Some v \<Rightarrow> v),
      drive_name = (case upd_name u of None \<Rightarrow> drive_name d | Some v \<Rightarrow> v),
      drive_type = (case upd_type u of None \<Rightarrow> drive_type d | Some v \<Rightarrow> v),
      drive_path = (case upd_path u of None \<Rightarrow> drive_path d | Some v \<Rightarrow> Some v),
      drive_url = (case upd_url u of None \<Rightarrow> drive_url d | Some v \<Rightarrow> Some v),
      drive_username = (case upd_username u of None \<Rightarrow> drive_username d | Some v \<Rightarrow> Some v),
      drive_password = (case upd_password u of None \<Rightarrow> drive_password d | Some v \<Rightarrow> Some v)\<rparr>"

text \<open>Lines 76-88.\<close>

definition updateDrive :: "string \<Rightarrow> drive_updates \<Rightarrow> preferences \<Rightarrow> preferences" where
  "updateDrive driveId updates prefs =
     (let drives = getDrives prefs in
      case findIndex (\<lambda>d. drive_id d = driveId) drives of
        None \<Rightarrow> prefs
      | Some index \<Rightarrow>
          if drive_id (drives ! index) \<noteq> ''local'' then
            (let drives' = drives[index := spread (drives ! index) updates];
                 savedDrives = filter (\<lambda>d. drive_id d \<noteq> ''local'') drives'
             in Some savedDrives)
          else prefs)"

text \<open>A sequence of calls on the drive list, run from left to right.\<close>

datatype drive_op =
    AddDrive drive
  | RemoveDrive string
  | UpdateDrive string drive_updates

fun apply_drive_op :: "drive_op \<Rightarrow> preferences \<Rightarrow> preferences" where
  "apply_drive_op (AddDrive driveConfig) prefs = snd (addDrive driveConfig prefs)"
| "apply_drive_op (RemoveDrive driveId) prefs = removeDrive driveId prefs"
| "apply_drive_op (UpdateDrive driveId updates) prefs = updateDrive driveId updates prefs"

definition run_drive_ops :: "drive_op list \<Rightarrow> preferences \<Rightarrow> preferences" where
  "run_drive_ops ops prefs = fold apply_drive_op ops prefs"

text \<open>The claim's invariant on the persisted list: no stored entry has the id \<open>local\<close>.\<close>

definition no_local_stored :: "preferences \<Rightarrow> bool" where
  "no_local_stored prefs =
     (case prefs of None \<Rightarrow> True | Some ds \<Rightarrow> list_all (\<lambda>d. drive_id d \<noteq> ''local'') ds)"

section \<open>FileService: move\<close>

text \<open>\<open>String.prototype.split\<close> on a one-character separator, and \<open>Array.prototype.pop\<close>
  (\<open>None\<close> for \<open>undefined\<close> on an empty array).\<close>

fun split :: "char \<Rightarrow> string \<Rightarrow> string list" where
  "split sep [] = [[]]"
| "split sep (c # cs) =
     (if c = sep then [] # split sep cs
      else (case split sep cs of
              [] \<Rightarrow> [[c]]
            | x # xs \<Rightarrow> (c # x) # xs))"

definition pop :: "'a list \<Rightarrow> 'a option" where
  "pop xs = (if xs = [] then None else Some (last xs))"

text \<open>A value inside a template literal or a string concatenation.\<close>

definition to_string :: "string option \<Rightarrow> string" where
  "to_string v = (case v of None \<Rightarrow> ''undefined'' | Some s \<Rightarrow> s)"

text \<open>\<open>s.replace(/\/+$/, '')\<close>: the trailing slashes are cut off.\<close>

definition strip_trailing_slashes :: "string \<Rightarrow> string" where
  "strip_trailing_slashes s = rev (dropWhile (\<lambda>c. c = CHR ''/'') (rev s))"

text \<open>\<open>String.prototype.includes\<close>.\<close>

definition string_includes :: "string \<Rightarrow> string \<Rightarrow> bool" where
  "string_includes s t = list_ex (\<lambda>i. take (length t) (drop i s) = t) [0..<Suc (length s)]"

text \<open>
  Lines 31-41. The WebDAV client is the url and the credentials that \<open>createClient\<close>
  was given. Off the native platform \<open>url.includes\<close> is evaluated, which throws a
  \<open>TypeError\<close> when the drive has no \<open>url\<close>.
\<close>

record webdav_client =
  client_url :: "string option"
  client_username :: "string option"
  client_password :: "string option"

definition createWebDAVClient :: "bool \<Rightarrow> drive \<Rightarrow> js_error + webdav_client" where
  "createWebDAVClient isNativePlatform d =
     (if \<not> isNativePlatform then
        (case drive_url d of
           None \<Rightarrow> Inl (Error ''Cannot read properties of undefined (reading 'includes')'')
         | Some url \<Rightarrow>
             Inr \<lparr>client_url =
                    Some (if string_includes url ''dav.jianguoyun.com'' then ''/jianguoyun-proxy/'' else url),
                  client_username = drive_username d,
                  client_password = drive_password d\<rparr>)
      else
        Inr \<lparr>client_url = drive_url d,
             client_username = drive_username d,
             client_password = drive_password d\<rparr>)"

text \<open>
  One relocation request: \<open>Filesystem.rename({from, to, directory: Documents})\<close> of the
  Capacitor plugin, or \<open>client.moveFile(from, to)\<close> of a WebDAV client.
\<close>

datatype relocation =
    Filesystem_rename string string
  | Client_moveFile webdav_client string string

text \<open>
  \<open>Promise.all(items.map(f))\<close>: the callback runs for every item, so every request is
  issued before any result is awaited. The backend decides for each request whether its
  promise rejects (\<open>Some\<close> error); the outcome is the list of requests issued and the
  rejections among them, in item order. The awaited promise rejects exactly when there is
  a rejection.
\<close>

definition promise_all ::
  "(relocation \<Rightarrow> js_error option) \<Rightarrow> relocation list \<Rightarrow> relocation list \<times> js_error list"
where
  "promise_all backend requests = (requests, List.map_filter backend requests)"

text \<open>Lines 167-184.\<close>

definition move ::
  "bool \<Rightarrow> (relocation \<Rightarrow> js_error option) \<Rightarrow> string list \<Rightarrow> string \<Rightarrow> drive
     \<Rightarrow> relocation list \<times> js_error list"
where
  "move isNativePlatform backend items destination d =
     (if drive_type d = ''local'' then
        (if isNativePlatform then
           promise_all backend
             (map (\<lambda>item.
                    let name = to_string (pop (split (CHR ''/'') item));
                        newPath = (if destination = ''/'' then ''/'' @ name
                                   else destination @ ''/'' @ name)
                    in Filesystem_rename item newPath) items)
         else ([], []))
      else
        (case createWebDAVClient isNativePlatform d of
           Inl err \<Rightarrow> ([], [err])
         | Inr client \<Rightarrow>
             promise_all backend
               (map (\<lambda>item.
                      let name = to_string (pop (split (CHR ''/'') item));
                          destPath = strip_trailing_slashes destination @ ''/'' @ name
                      in Client_moveFile client item destPath) items)))"

section \<open>The file browser: sortedFiles\<close>

text \<open>
  A file entry as \<open>normalizeWebDAVFile\<close> and \<open>normalizeLocalFile\<close> build it, and
  the sort configuration. The runtime gives \<open>localeCompare\<close> and the time value of
  \<open>new Date(mtime)\<close>, which is \<open>NaN\<close> (\<open>None\<close>) for an invalid date.
\<close>

record file_entry =
  name :: string
  path :: string
  isDirectory :: bool
  size_bytes :: nat
  mtime :: js_value
  mime_type :: string

record sortConfig =
  key :: string
  direction :: string

record sort_env =
  localeCompare :: "string \<Rightarrow> string \<Rightarrow> int"
  Date_value :: "js_value \<Rightarrow> int option"

text \<open>A JavaScript number that may be \<open>NaN\<close>: subtraction and negation keep \<open>NaN\<close>.\<close>

definition num_sub :: "int option \<Rightarrow> int option \<Rightarrow> int option" where
  "num_sub x y = (case x of None \<Rightarrow> None | Some a \<Rightarrow> (case y of None \<Rightarrow> None | Some b \<Rightarrow> Some (a - b)))"

definition num_neg :: "int option \<Rightarrow> int option" where
  "num_neg x = map_option uminus x"

text \<open>Lines 284-310: the comparison function given to \<open>sort\<close>.\<close>

definition compareFiles :: "sort_env \<Rightarrow> sortConfig \<Rightarrow> file_entry \<Rightarrow> file_entry \<Rightarrow> int option" where
  "compareFiles env cfg a b =
     (if isDirectory a \<noteq> isDirectory b then Some (if isDirectory a then - 1 else 1)
      else
        (let res =
           (if key cfg = ''name'' then Some (localeCompare env (name a) (name b))
            else if key cfg = ''date'' then num_sub (Date_value env (mtime a)) (Date_value env (mtime b))
            else if key cfg = ''type'' then
              (let extA = to_string (pop (split (CHR ''.'') (name a)));
                   extB = to_string (pop (split (CHR ''.'') (name b)))
               in Some (localeCompare env extA extB))
            else Some 0)
         in if direction cfg = ''desc'' then num_neg res else res))"

text \<open>
  \<open>Array.prototype.sort(comparefn)\<close>: a comparison result that is \<open>NaN\<close> counts as
  \<open>0\<close>. The language fixes the result when \<open>comparefn\<close> is a consistent comparison
  function for the elements (\<open>consistent_on\<close> below): the elements in the order of
  \<open>comparefn\<close>, those that compare equal in their original order. Stable insertion
  sort computes that list. For a comparison function that is not consistent (a \<open>NaN\<close>
  from an invalid date makes it so) the language leaves the order to the engine, and
  \<open>array_sort\<close> stands for the engine only where \<open>consistent_on\<close> holds.
\<close>

definition sort_compare :: "('a \<Rightarrow> 'a \<Rightarrow> int option) \<Rightarrow> 'a \<Rightarrow> 'a \<Rightarrow> int" where
  "sort_compare comparefn a b = (case comparefn a b of None \<Rightarrow> 0 | Some v \<Rightarrow> v)"

fun insert_sorted :: "('a \<Rightarrow> 'a \<Rightarrow> int option) \<Rightarrow> 'a \<Rightarrow> 'a list \<Rightarrow> 'a list" where
  "insert_sorted comparefn x [] = [x]"
| "insert_sorted comparefn x (y # ys) =
     (if sort_compare comparefn x y \<le> 0 then x # y # ys
      else y # insert_sorted comparefn x ys)"

definition array_sort :: "('a \<Rightarrow> 'a \<Rightarrow> int option) \<Rightarrow> 'a list \<Rightarrow> 'a list" where
  "array_sort comparefn xs = foldr (insert_sorted comparefn) xs []"

text \<open>
  A consistent comparison function for the values in \<open>S\<close>, as the language defines
  it: the result is never \<open>NaN\<close>; comparing equal is reflexive, symmetric and
  transitive; comparing less and comparing greater are transitive.
\<close>

definition consistent_on :: "('a \<Rightarrow> 'a \<Rightarrow> int option) \<Rightarrow> 'a set \<Rightarrow> bool" where
  "consistent_on comparefn S =
     ((\<forall>a\<in>S. \<forall>b\<in>S. comparefn a b \<noteq> None) \<and>
      (\<forall>a\<in>S. sort_compare comparefn a a = 0) \<and>
      (\<forall>a\<in>S. \<forall>b\<in>S. sort_compare comparefn a b = 0 \<longrightarrow> sort_compare comparefn b a = 0) \<and>
      (\<forall>a\<in>S. \<forall>b\<in>S. \<forall>c\<in>S.
         sort_compare comparefn a b = 0 \<and> sort_compare comparefn b c = 0 \<longrightarrow>
         sort_compare comparefn a c = 0) \<and>
      (\<forall>a\<in>S. \<forall>b\<in>S. \<forall>c\<in>S.
         sort_compare comparefn a b < 0 \<and> sort_compare comparefn b c < 0 \<longrightarrow>
         sort_compare comparefn a c < 0) \<and>
      (\<forall>a\<in>S. \<forall>b\<in>S. \<forall>c\<in>S.
         sort_compare comparefn a b > 0 \<and> sort_compare comparefn b c > 0 \<longrightarrow>
         sort_compare comparefn a c > 0))"

text \<open>Lines 282-312.\<close>

definition sortedFiles :: "sort_env \<Rightarrow> sortConfig \<Rightarrow> file_entry list \<Rightarrow> file_entry list" where
  "sortedFiles env cfg filteredFiles = array_sort (compareFiles env cfg) filteredFiles"

section \<open>Sample inputs\<close>

text \<open>
  A request as in the spec's example (\<open>PUT /api/proxy/docs/note.txt\<close> with body
  \<open>"hello"\<close>, header names lower-cased as Node delivers them) and an upstream that
  answers 201.
\<close>

definition sample_request :: request where
  "sample_request =
     \<lparr>query_path = PathArray [''docs'', ''note.txt''],
      req_method = ''PUT'',
      req_headers =
        [(''host'', Single ''clouddrive.example''),
         (''authorization'', Single ''Basic dTpw''),
         (''user-agent'', Single ''Mozilla/5.0''),
         (''cookie'', Single ''sid=1'')],
      req_body = JStr ''hello''\<rparr>"

definition sample_upstream :: upstream_response where
  "sample_upstream =
     \<lparr>up_status = 201,
      up_headers = [(''content-length'', ''5''), (''etag'', ''abc'')],
      up_arrayBuffer = Inr [104, 105]\<rparr>"

definition sample_env :: env where
  "sample_env = \<lparr>fetch = (\<lambda>call. Inr sample_upstream), JSON_stringify = (\<lambda>v. ''{}'')\<rparr>"

text \<open>An upstream that sends a CORS header of its own, one whose \<open>fetch\<close> rejects, and
  a binary upload as Vercel hands it over for \<open>application/octet-stream\<close>.\<close>

definition cors_override_upstream :: upstream_response where
  "cors_override_upstream =
     \<lparr>up_status = 200,
      up_headers = [(''access-control-allow-methods'', ''GET'')],
      up_arrayBuffer = Inr []\<rparr>"

definition cors_override_env :: env where
  "cors_override_env = \<lparr>fetch = (\<lambda>call. Inr cors_override_upstream), JSON_stringify = (\<lambda>v. ''{}'')\<rparr>"

definition failing_env :: env where
  "failing_env = \<lparr>fetch = (\<lambda>call. Inl (Error ''fetch failed'')), JSON_stringify = (\<lambda>v. ''{}'')\<rparr>"

definition binary_upload_request :: request where
  "binary_upload_request =
     \<lparr>query_path = PathArray [''photo.bin''],
      req_method = ''PUT'',
      req_headers = [(''content-type'', Single ''application/octet-stream'')],
      req_body = JBuffer [104, 105]\<rparr>"

text \<open>A WebDAV drive configuration that carries the id \<open>local\<close>, and the same drive
  under an id of its own.\<close>

definition local_id_drive :: drive where
  "local_id_drive =
     \<lparr>drive_id = ''local'', drive_name = ''My NAS'', drive_type = ''webdav'',
      drive_path = None, drive_url = Some ''https://nas.example/dav'',
      drive_username = Some ''u'', drive_password = Some ''p''\<rparr>"

definition nas_drive :: drive where
  "nas_drive =
     \<lparr>drive_id = ''1700000000000'', drive_name = ''My NAS'', drive_type = ''webdav'',
      drive_path = None, drive_url = Some ''https://nas.example/dav'',
      drive_username = Some ''u'', drive_password = Some ''p''\<rparr>"

text \<open>A byte-wise string comparison in the place of \<open>localeCompare\<close>, a time value read
  off a number, and a listing of two files and two folders.\<close>

fun byte_compare :: "string \<Rightarrow> string \<Rightarrow> int" where
  "byte_compare [] [] = 0"
| "byte_compare [] (y # ys) = - 1"
| "byte_compare (x # xs) [] = 1"
| "byte_compare (x # xs) (y # ys) =
     (if (of_char x :: nat) < of_char y then - 1
      else if (of_char y :: nat) < of_char x then 1
      else byte_compare xs ys)"

definition sample_sort_env :: sort_env where
  "sample_sort_env =
     \<lparr>localeCompare = byte_compare,
      Date_value = (\<lambda>v. case v of JNum n \<Rightarrow> Some n | _ \<Rightarrow> None)\<rparr>"

definition sample_file :: "string \<Rightarrow> bool \<Rightarrow> int \<Rightarrow> file_entry" where
  "sample_file n dir t =
     \<lparr>name = n, path = ''/'' @ n, isDirectory = dir, size_bytes = 0, mtime = JNum t,
      mime_type = (if dir then ''folder'' else ''application/octet-stream'')\<rparr>"

definition sample_files :: "file_entry list" where
  "sample_files =
     [sample_file ''b.txt'' False 30, sample_file ''zeta'' True 10,
      sample_file ''a.md'' False 20, sample_file ''alpha'' True 40]"

text \<open>Two files with the same extension.\<close>

definition two_text_files :: "file_entry list" where
  "two_text_files = [sample_file ''a.txt'' False 10, sample_file ''b.txt'' False 20]"

text \<open>An upstream response with two \<open>set-cookie\<close> headers, which \<open>forEach\<close> visits one
  by one.\<close>

definition two_cookies_upstream :: upstream_response where
  "two_cookies_upstream =
     \<lparr>up_status = 200,
      up_headers = [(''set-cookie'', ''a=1''), (''set-cookie'', ''b=2'')],
      up_arrayBuffer = Inr []\<rparr>"

definition two_cookies_env :: env where
  "two_cookies_env = \<lparr>fetch = (\<lambda>call. Inr two_cookies_upstream), JSON_stringify = (\<lambda>v. ''{}'')\<rparr>"

section \<open>Properties of the proxy\<close>

lemma join_slash: "join sep (x # xs) = x @ concat (map (\<lambda>s. sep @ s) xs)"
  by (induction xs arbitrary: x) auto

lemma fst_handler:
  "req_method req \<noteq> ''OPTIONS'' \<Longrightarrow> fst (handler e req) = [fetchOptions e req]"
  by (simp add: handler_def Let_def split: sum.splits)

text \<open>
  Claim C1. A request whose method is not \<open>OPTIONS\<close> makes the handler call
  \<open>fetch\<close> exactly once, with the request's own method, on the fixed base followed by
  the path segments in their order with \<open>/\<close> between them (the bare base when there
  is no segment or no \<open>path\<close> at all; a \<open>path\<close> given as one string is appended as
  it is).
\<close>

theorem handler_forwards_once_to_joined_url:
  assumes "req_method req \<noteq> ''OPTIONS''"
  shows "\<exists>call. fst (handler e req) = [call] \<and> fc_method call = req_method req \<and>
           (query_path req = PathUndefined \<longrightarrow> fc_url call = ''https://dav.jianguoyun.com/dav/'') \<and>
           (\<forall>s. query_path req = PathString s \<longrightarrow> fc_url call = ''https://dav.jianguoyun.com/dav/'' @ s) \<and>
           (\<forall>segs. query_path req = PathArray segs \<longrightarrow>
              fc_url call = ''https://dav.jianguoyun.com/dav/'' @
                (case segs of [] \<Rightarrow> [] | x # xs \<Rightarrow> x @ concat (map (\<lambda>s. ''/'' @ s) xs)))"
proof -
  have "fst (handler e req) = [fetchOptions e req]"
    using assms by (rule fst_handler)
  moreover have "fc_method (fetchOptions e req) = req_method req"
    by (simp add: fetchOptions_def)
  moreover have "query_path req = PathUndefined \<longrightarrow>
      fc_url (fetchOptions e req) = ''https://dav.jianguoyun.com/dav/''"
    by (simp add: fetchOptions_def targetUrl_def pathStr_def upstream_base_def)
  moreover have "\<forall>s. query_path req = PathString s \<longrightarrow>
      fc_url (fetchOptions e req) = ''https://dav.jianguoyun.com/dav/'' @ s"
    by (simp add: fetchOptions_def targetUrl_def pathStr_def upstream_base_def)
  moreover have "\<forall>segs. query_path req = PathArray segs \<longrightarrow>
      fc_url (fetchOptions e req) = ''https://dav.jianguoyun.com/dav/'' @
        (case segs of [] \<Rightarrow> [] | x # xs \<Rightarrow> x @ concat (map (\<lambda>s. ''/'' @ s) xs))"
  proof (intro allI impI)
    fix segs assume p: "query_path req = PathArray segs"
    show "fc_url (fetchOptions e req) = ''https://dav.jianguoyun.com/dav/'' @
        (case segs of [] \<Rightarrow> [] | x # xs \<Rightarrow> x @ concat (map (\<lambda>s. ''/'' @ s) xs))"
    proof (cases segs)
      case Nil
      with p show ?thesis
        by (simp add: fetchOptions_def targetUrl_def pathStr_def upstream_base_def)
    next
      case (Cons x xs)
      from p have "fc_url (fetchOptions e req) =
          ''https://dav.jianguoyun.com/dav/'' @ join ''/'' segs"
        by (simp add: fetchOptions_def targetUrl_def pathStr_def upstream_base_def)
      then show ?thesis
        by (simp only: Cons join_slash list.case)
    qed
  qed
  ultimately show ?thesis by blast
qed

text \<open>The spec's example: \<open>PUT\<close> of \<open>docs/note.txt\<close> goes to \<open>.../dav/docs/note.txt\<close>.\<close>

theorem handler_forwards_once_to_joined_url_witness:
  "req_method sample_request \<noteq> ''OPTIONS'' \<and>
   query_path sample_request = PathArray [''docs'', ''note.txt''] \<and>
   (\<exists>call. fst (handler sample_env sample_request) = [call] \<and> fc_method call = ''PUT'' \<and>
      fc_url call = ''https://dav.jianguoyun.com/dav/docs/note.txt'')"
  using handler_forwards_once_to_joined_url [of sample_request sample_env]
  by (simp add: sample_request_def)

text \<open>
  Claim C2. A request with method \<open>OPTIONS\<close>, whatever its path, headers and body,
  gets status 200, an ended response without a body and exactly the three fixed CORS
  headers; no \<open>fetch\<close> call is made.
\<close>

theorem handler_options_preflight:
  assumes "req_method req = ''OPTIONS''"
  shows "handler e req =
    ([], \<lparr>statusCode = 200,
          res_headers =
            [(''access-control-allow-origin'', ''*''),
             (''access-control-allow-methods'', allow_methods),
             (''access-control-allow-headers'', allow_headers)],
          body = End\<rparr>)"
  using assms
  by (simp add: handler_def set_cors_headers_def new_response_def setHeader_def status_def
      end_res_def toLowerCase_def toLowerCase_char_def)

theorem handler_options_preflight_witness:
  "req_method (sample_request\<lparr>req_method := ''OPTIONS''\<rparr>) = ''OPTIONS'' \<and>
   fst (handler sample_env (sample_request\<lparr>req_method := ''OPTIONS''\<rparr>)) = [] \<and>
   statusCode (snd (handler sample_env (sample_request\<lparr>req_method := ''OPTIONS''\<rparr>))) = 200 \<and>
   body (snd (handler sample_env (sample_request\<lparr>req_method := ''OPTIONS''\<rparr>))) = End \<and>
   getHeader (snd (handler sample_env (sample_request\<lparr>req_method := ''OPTIONS''\<rparr>)))
     ''Access-Control-Allow-Origin'' = Some ''*''"
  using handler_options_preflight [of "sample_request\<lparr>req_method := ''OPTIONS''\<rparr>" sample_env]
  by (simp add: getHeader_def toLowerCase_def toLowerCase_char_def)

lemma filter_request_headers_keys:
  "k \<in> fst ` set (filter_request_headers es acc) \<Longrightarrow>
     k \<in> fst ` set acc \<or> (k \<in> fst ` set es \<and> toLowerCase k \<notin> set dropped_request_headers)"
proof (induction es arbitrary: acc)
  case Nil
  then show ?case by simp
next
  case (Cons p es)
  obtain key val where p: "p = (key, val)" by (cases p)
  show ?case
  proof (cases "toLowerCase key \<notin> set dropped_request_headers")
    case True
    with Cons.prems p have "k \<in> fst ` set (filter_request_headers es (obj_set key val acc))"
      by simp
    from Cons.IH [OF this] have
      "k \<in> fst ` set (obj_set key val acc) \<or>
       (k \<in> fst ` set es \<and> toLowerCase k \<notin> set dropped_request_headers)" .
    moreover have "fst ` set (obj_set key val acc) \<subseteq> insert key (fst ` set acc)"
      by (auto simp: obj_set_def dom_update)
    ultimately show ?thesis using True p by auto
  next
    case False
    with Cons.prems p have "k \<in> fst ` set (filter_request_headers es acc)"
      by simp
    from Cons.IH [OF this] show ?thesis using p by auto
  qed
qed

lemma filter_request_headers_distinct:
  "distinct (map fst acc) \<Longrightarrow> distinct (map fst (filter_request_headers es acc))"
  by (induction es arbitrary: acc) (auto simp: obj_set_def distinct_update)

lemma forwarded_headers_keys:
  "k \<in> fst ` set (forwarded_headers req) \<Longrightarrow>
     k = ''user-agent'' \<or>
     (k \<in> fst ` set (req_headers req) \<and> toLowerCase k \<notin> set dropped_request_headers)"
proof -
  assume "k \<in> fst ` set (forwarded_headers req)"
  then have "k = ''user-agent'' \<or> k \<in> fst ` set (filter_request_headers (req_headers req) [])"
    by (auto simp: forwarded_headers_def obj_set_def dom_update)
  then show ?thesis
    using filter_request_headers_keys [of k "req_headers req" "[]"] by auto
qed

lemma forwarded_headers_distinct: "distinct (map fst (forwarded_headers req))"
  by (simp add: forwarded_headers_def obj_set_def distinct_update filter_request_headers_distinct)

lemma forwarded_headers_user_agent:
  "map_of (forwarded_headers req) ''user-agent'' = Some (Single forced_user_agent)"
  by (simp add: forwarded_headers_def obj_set_def update_conv')

lemma user_agent_not_dropped: "toLowerCase ''user-agent'' \<notin> set dropped_request_headers"
  by (simp add: toLowerCase_def toLowerCase_char_def dropped_request_headers_def)

text \<open>
  Claim C3. In the one \<open>fetch\<close> call of a forwarded request, no header name
  lower-cases to \<open>host\<close>, \<open>origin\<close>, \<open>referer\<close>, \<open>cookie\<close>, \<open>connection\<close> or
  \<open>accept-encoding\<close>, and the property \<open>user-agent\<close> of the forwarded headers is the
  fixed compatibility string, whatever the inbound headers were. When the inbound names
  are lower-case, as Node's \<open>req.headers\<close> always has them, no other spelling of
  \<open>user-agent\<close> is forwarded beside it.
\<close>

theorem forwarded_headers_filtered_and_user_agent_forced:
  assumes "req_method req \<noteq> ''OPTIONS''"
  shows "\<exists>call. fst (handler e req) = [call] \<and>
           (\<forall>k \<in> fst ` set (fc_headers call).
              toLowerCase k \<notin> {''host'', ''origin'', ''referer'', ''cookie'', ''connection'', ''accept-encoding''}) \<and>
           map_of (fc_headers call) ''user-agent'' = Some (Single ''WebDAVFS/1.0.0 (0.0.0) CloudMgr/1.0.0'') \<and>
           ((\<forall>k \<in> fst ` set (req_headers req). toLowerCase k = k) \<longrightarrow>
              (\<forall>(k, v) \<in> set (fc_headers call).
                 toLowerCase k = ''user-agent'' \<longrightarrow> v = Single ''WebDAVFS/1.0.0 (0.0.0) CloudMgr/1.0.0''))"
proof -
  let ?call = "fetchOptions e req"
  have hs: "fc_headers ?call = forwarded_headers req"
    by (simp add: fetchOptions_def)
  have a: "fst (handler e req) = [?call]"
    using assms by (rule fst_handler)
  have b: "\<forall>k \<in> fst ` set (fc_headers ?call).
      toLowerCase k \<notin> {''host'', ''origin'', ''referer'', ''cookie'', ''connection'', ''accept-encoding''}"
  proof
    fix k assume "k \<in> fst ` set (fc_headers ?call)"
    then have "toLowerCase k \<notin> set dropped_request_headers"
      using forwarded_headers_keys [of k req] user_agent_not_dropped by (auto simp: hs)
    then show "toLowerCase k \<notin> {''host'', ''origin'', ''referer'', ''cookie'', ''connection'', ''accept-encoding''}"
      by (simp add: dropped_request_headers_def)
  qed
  have c: "map_of (fc_headers ?call) ''user-agent'' = Some (Single ''WebDAVFS/1.0.0 (0.0.0) CloudMgr/1.0.0'')"
    using forwarded_headers_user_agent [of req] by (simp add: hs forced_user_agent_def)
  have d: "(\<forall>k \<in> fst ` set (req_headers req). toLowerCase k = k) \<longrightarrow>
      (\<forall>(k, v) \<in> set (fc_headers ?call).
         toLowerCase k = ''user-agent'' \<longrightarrow> v = Single ''WebDAVFS/1.0.0 (0.0.0) CloudMgr/1.0.0'')"
  proof (intro impI ballI, clarify)
    fix k v
    assume low: "\<forall>k \<in> fst ` set (req_headers req). toLowerCase k = k"
      and kv: "(k, v) \<in> set (fc_headers ?call)" and ua: "toLowerCase k = ''user-agent''"
    from kv have "k \<in> fst ` set (forwarded_headers req)"
      by (auto simp: hs intro: rev_image_eqI)
    then have "k = ''user-agent''"
      using forwarded_headers_keys [of k req] low ua by auto
    moreover from kv have "map_of (forwarded_headers req) k = Some v"
      using forwarded_headers_distinct [of req] by (simp add: hs)
    ultimately show "v = Single ''WebDAVFS/1.0.0 (0.0.0) CloudMgr/1.0.0''"
      using c by (simp add: hs)
  qed
  from a b c d show ?thesis by blast
qed

theorem forwarded_headers_filtered_and_user_agent_forced_witness:
  "req_method sample_request \<noteq> ''OPTIONS'' \<and>
   map toLowerCase (map fst (req_headers sample_request)) = map fst (req_headers sample_request) \<and>
   (\<exists>call. fst (handler sample_env sample_request) = [call] \<and>
      map_of (fc_headers call) ''host'' = None \<and>
      map_of (fc_headers call) ''cookie'' = None \<and>
      map_of (fc_headers call) ''authorization'' = Some (Single ''Basic dTpw'') \<and>
      map_of (fc_headers call) ''user-agent'' = Some (Single ''WebDAVFS/1.0.0 (0.0.0) CloudMgr/1.0.0''))"
proof -
  have m: "req_method sample_request \<noteq> ''OPTIONS''"
    by (simp add: sample_request_def)
  have l: "map toLowerCase (map fst (req_headers sample_request)) = map fst (req_headers sample_request)"
    by (simp add: sample_request_def toLowerCase_def toLowerCase_char_def)
  from forwarded_headers_filtered_and_user_agent_forced [OF m, of sample_env]
  obtain call where c: "fst (handler sample_env sample_request) = [call]"
    and ua: "map_of (fc_headers call) ''user-agent'' = Some (Single ''WebDAVFS/1.0.0 (0.0.0) CloudMgr/1.0.0'')"
    by blast
  from c m have "call = fetchOptions sample_env sample_request"
    by (simp add: fst_handler)
  then have "map_of (fc_headers call) ''host'' = None \<and>
      map_of (fc_headers call) ''cookie'' = None \<and>
      map_of (fc_headers call) ''authorization'' = Some (Single ''Basic dTpw'')"
    by (simp add: fetchOptions_def forwarded_headers_def obj_set_def sample_request_def
        toLowerCase_def toLowerCase_char_def dropped_request_headers_def)
  with m l c ua show ?thesis by blast
qed

lemma relay_headers_append:
  "relay_headers (xs @ ys) res = relay_headers ys (relay_headers xs res)"
  by (induction xs arbitrary: res) auto

lemma relay_headers_statusCode [simp]: "statusCode (relay_headers es res) = statusCode res"
  by (induction es arbitrary: res) (auto simp: setHeader_def)

lemma relay_headers_body [simp]: "body (relay_headers es res) = body res"
  by (induction es arbitrary: res) (auto simp: setHeader_def)

lemma relay_headers_untouched:
  "\<forall>(k, v) \<in> set es. toLowerCase k = n \<longrightarrow> n \<in> set dropped_response_headers \<Longrightarrow>
     map_of (res_headers (relay_headers es res)) n = map_of (res_headers res) n"
  by (induction es arbitrary: res) (auto simp: setHeader_def update_conv')

lemma relay_headers_dropped:
  "toLowerCase k \<in> set dropped_response_headers \<Longrightarrow>
     getHeader (relay_headers es res) k = getHeader res k"
  unfolding getHeader_def by (rule relay_headers_untouched) auto

lemma relay_headers_last:
  assumes "toLowerCase k \<notin> set dropped_response_headers"
    and "\<forall>k' \<in> fst ` set ys. toLowerCase k' \<noteq> toLowerCase k"
  shows "getHeader (relay_headers (xs @ (k, v) # ys) res) k = Some v"
proof -
  let ?r = "setHeader k v (relay_headers xs res)"
  have "relay_headers (xs @ (k, v) # ys) res = relay_headers ys ?r"
    using assms(1) by (simp add: relay_headers_append)
  moreover have "map_of (res_headers (relay_headers ys ?r)) (toLowerCase k) =
      map_of (res_headers ?r) (toLowerCase k)"
    using assms(2) by (intro relay_headers_untouched) force
  moreover have "map_of (res_headers ?r) (toLowerCase k) = Some v"
    by (simp add: setHeader_def update_conv')
  ultimately show ?thesis by (simp add: getHeader_def)
qed

lemma snd_handler_relayed:
  assumes "req_method req \<noteq> ''OPTIONS''" and "fetch e (fetchOptions e req) = Inr up"
    and "up_arrayBuffer up = Inr buf"
  shows "snd (handler e req) =
    send buf (relay_headers (up_headers up) (status (up_status up) (set_cors_headers new_response)))"
  using assms by (simp add: handler_def Let_def)

lemma getHeader_cors:
  "getHeader (set_cors_headers new_response) k =
     (if toLowerCase k = ''access-control-allow-origin'' then Some ''*''
      else if toLowerCase k = ''access-control-allow-methods'' then Some allow_methods
      else if toLowerCase k = ''access-control-allow-headers'' then Some allow_headers
      else None)"
  by (simp add: getHeader_def set_cors_headers_def new_response_def setHeader_def
      toLowerCase_def toLowerCase_char_def)

lemma getHeader_status [simp]: "getHeader (status n res) k = getHeader res k"
  by (simp add: getHeader_def status_def)

lemma getHeader_send [simp]: "getHeader (send b res) k = getHeader res k"
  by (simp add: getHeader_def send_def)

lemma getHeader_catch_error [simp]: "getHeader (catch_error err res) k = getHeader res k"
  by (simp add: getHeader_def catch_error_def json_def status_def)

lemma getHeader_end_res [simp]: "getHeader (end_res res) k = getHeader res k"
  by (simp add: getHeader_def end_res_def)

lemma getHeader_handler:
  "getHeader (snd (handler e req)) k =
     (if req_method req = ''OPTIONS'' then getHeader (set_cors_headers new_response) k
      else case fetch e (fetchOptions e req) of
             Inl err \<Rightarrow> getHeader (set_cors_headers new_response) k
           | Inr up \<Rightarrow>
               getHeader (relay_headers (up_headers up)
                 (status (up_status up) (set_cors_headers new_response))) k)"
  by (simp add: handler_def Let_def split: sum.splits)

lemma relay_headers_absent:
  assumes "toLowerCase k \<notin> toLowerCase ` fst ` set es"
  shows "getHeader (relay_headers es res) k = getHeader res k"
proof -
  have "\<forall>(k', v) \<in> set es. toLowerCase k' = toLowerCase k \<longrightarrow>
      toLowerCase k \<in> set dropped_response_headers"
  proof (clarify)
    fix k' v assume "(k', v) \<in> set es" and "toLowerCase k' = toLowerCase k"
    then have "toLowerCase k \<in> toLowerCase ` fst ` set es"
      by (metis fst_conv image_eqI)
    with assms show "toLowerCase k \<in> set dropped_response_headers" by simp
  qed
  then show ?thesis
    unfolding getHeader_def by (rule relay_headers_untouched)
qed

text \<open>
  Claim C4 fails as it is stated: of two upstream \<open>set-cookie\<close> entries the second
  \<open>setHeader\<close> call replaces what the first has set, so the first entry is not on the
  client response.
\<close>

theorem relay_keeps_only_last_set_cookie:
  "req_method sample_request \<noteq> ''OPTIONS'' \<and>
   fetch two_cookies_env (fetchOptions two_cookies_env sample_request) = Inr two_cookies_upstream \<and>
   up_arrayBuffer two_cookies_upstream = Inr [] \<and>
   up_headers two_cookies_upstream = [(''set-cookie'', ''a=1''), (''set-cookie'', ''b=2'')] \<and>
   toLowerCase ''set-cookie'' \<notin> set dropped_response_headers \<and>
   getHeader (snd (handler two_cookies_env sample_request)) ''set-cookie'' = Some ''b=2'' \<and>
   getHeader (snd (handler two_cookies_env sample_request)) ''set-cookie'' \<noteq> Some ''a=1''"
  by (simp add: handler_def two_cookies_env_def two_cookies_upstream_def sample_request_def
      Let_def getHeader_def send_def status_def set_cors_headers_def new_response_def setHeader_def
      dropped_response_headers_def toLowerCase_def toLowerCase_char_def)

text \<open>
  Claim C4, amended. When \<open>fetch\<close> resolves and the body is read, the client response
  has the upstream status and the upstream body. Whatever the upstream sent as
  \<open>content-encoding\<close>, \<open>content-length\<close> or \<open>access-control-allow-origin\<close> (in any
  spelling) is not copied: the first two stay unset and the third stays \<open>*\<close>. Every
  other upstream header entry that no later entry of the same name follows is on the
  client response with its value unchanged; so where the upstream repeats a name, the
  value of the last entry of that name is the one on the client response.
\<close>

theorem relayed_response_mirrors_upstream:
  assumes "req_method req \<noteq> ''OPTIONS''" and "fetch e (fetchOptions e req) = Inr up"
    and "up_arrayBuffer up = Inr buf"
  shows "statusCode (snd (handler e req)) = up_status up \<and>
         body (snd (handler e req)) = Send buf \<and>
         (\<forall>k. toLowerCase k = ''content-encoding'' \<or> toLowerCase k = ''content-length'' \<longrightarrow>
            getHeader (snd (handler e req)) k = None) \<and>
         (\<forall>k. toLowerCase k = ''access-control-allow-origin'' \<longrightarrow>
            getHeader (snd (handler e req)) k = Some ''*'') \<and>
         (\<forall>xs k v ys. up_headers up = xs @ (k, v) # ys \<and>
            toLowerCase k \<notin> {''content-encoding'', ''content-length'', ''access-control-allow-origin''} \<and>
            (\<forall>k' \<in> fst ` set ys. toLowerCase k' \<noteq> toLowerCase k) \<longrightarrow>
            getHeader (snd (handler e req)) k = Some v)"
proof -
  let ?res0 = "status (up_status up) (set_cors_headers new_response)"
  have r: "snd (handler e req) = send buf (relay_headers (up_headers up) ?res0)"
    using assms by (rule snd_handler_relayed)
  have a: "statusCode (snd (handler e req)) = up_status up"
    by (simp add: r send_def status_def)
  have b: "body (snd (handler e req)) = Send buf"
    by (simp add: r send_def)
  have c: "\<forall>k. toLowerCase k = ''content-encoding'' \<or> toLowerCase k = ''content-length'' \<longrightarrow>
      getHeader (snd (handler e req)) k = None"
  proof (intro allI impI)
    fix k assume k: "toLowerCase k = ''content-encoding'' \<or> toLowerCase k = ''content-length''"
    then have "toLowerCase k \<in> set dropped_response_headers"
      by (auto simp: dropped_response_headers_def)
    then have "getHeader (snd (handler e req)) k = getHeader (set_cors_headers new_response) k"
      by (simp add: r relay_headers_dropped)
    with k show "getHeader (snd (handler e req)) k = None"
      by (auto simp: getHeader_cors)
  qed
  have d: "\<forall>k. toLowerCase k = ''access-control-allow-origin'' \<longrightarrow>
      getHeader (snd (handler e req)) k = Some ''*''"
  proof (intro allI impI)
    fix k assume k: "toLowerCase k = ''access-control-allow-origin''"
    then have "toLowerCase k \<in> set dropped_response_headers"
      by (simp add: dropped_response_headers_def)
    then have "getHeader (snd (handler e req)) k = getHeader (set_cors_headers new_response) k"
      by (simp add: r relay_headers_dropped)
    with k show "getHeader (snd (handler e req)) k = Some ''*''"
      by (simp add: getHeader_cors)
  qed
  have f: "\<forall>xs k v ys. up_headers up = xs @ (k, v) # ys \<and>
      toLowerCase k \<notin> {''content-encoding'', ''content-length'', ''access-control-allow-origin''} \<and>
      (\<forall>k' \<in> fst ` set ys. toLowerCase k' \<noteq> toLowerCase k) \<longrightarrow>
      getHeader (snd (handler e req)) k = Some v"
  proof (intro allI impI, elim conjE)
    fix xs k v ys
    assume "up_headers up = xs @ (k, v) # ys"
      and "toLowerCase k \<notin> {''content-encoding'', ''content-length'', ''access-control-allow-origin''}"
      and "\<forall>k' \<in> fst ` set ys. toLowerCase k' \<noteq> toLowerCase k"
    then show "getHeader (snd (handler e req)) k = Some v"
      using relay_headers_last [of k ys xs v ?res0]
      by (simp add: r dropped_response_headers_def)
  qed
  from a b c d f show ?thesis by blast
qed

theorem relayed_response_mirrors_upstream_witness:
  "req_method sample_request \<noteq> ''OPTIONS'' \<and>
   fetch sample_env (fetchOptions sample_env sample_request) = Inr sample_upstream \<and>
   up_arrayBuffer sample_upstream = Inr [104, 105] \<and>
   up_headers sample_upstream = [(''content-length'', ''5'')] @ (''etag'', ''abc'') # [] \<and>
   statusCode (snd (handler sample_env sample_request)) = 201 \<and>
   body (snd (handler sample_env sample_request)) = Send [104, 105] \<and>
   getHeader (snd (handler sample_env sample_request)) ''content-length'' = None \<and>
   getHeader (snd (handler sample_env sample_request)) ''etag'' = Some ''abc''"
proof -
  have m: "req_method sample_request \<noteq> ''OPTIONS''"
    by (simp add: sample_request_def)
  have f: "fetch sample_env (fetchOptions sample_env sample_request) = Inr sample_upstream"
    by (simp add: sample_env_def)
  have b: "up_arrayBuffer sample_upstream = Inr [104, 105]"
    by (simp add: sample_upstream_def)
  have h: "up_headers sample_upstream = [(''content-length'', ''5'')] @ (''etag'', ''abc'') # []"
    by (simp add: sample_upstream_def)
  have l: "toLowerCase ''content-length'' = ''content-length''" "toLowerCase ''etag'' = ''etag''"
    by (simp_all add: toLowerCase_def toLowerCase_char_def)
  note t = relayed_response_mirrors_upstream [OF m f b]
  from t have "statusCode (snd (handler sample_env sample_request)) = 201"
    by (simp add: sample_upstream_def)
  moreover from t have "body (snd (handler sample_env sample_request)) = Send [104, 105]"
    by simp
  moreover from t l have "getHeader (snd (handler sample_env sample_request)) ''content-length'' = None"
    by blast
  moreover have "getHeader (snd (handler sample_env sample_request)) ''etag'' = Some ''abc''"
  proof -
    from t have "\<forall>xs k v ys. up_headers sample_upstream = xs @ (k, v) # ys \<and>
        toLowerCase k \<notin> {''content-encoding'', ''content-length'', ''access-control-allow-origin''} \<and>
        (\<forall>k' \<in> fst ` set ys. toLowerCase k' \<noteq> toLowerCase k) \<longrightarrow>
        getHeader (snd (handler sample_env sample_request)) k = Some v"
      by (elim conjE)
    from this [rule_format, of "[(''content-length'', ''5'')]" "''etag''" "''abc''" "[]"] h l
    show ?thesis by simp
  qed
  ultimately show ?thesis using m f b h by blast
qed


text \<open>
  Claim C5. When \<open>fetch\<close> rejects, or the upstream body cannot be read, the response
  has status 500 and the JSON body \<open>{error: message}\<close> with the message of the error that
  was thrown. The handler is a total function of the request and the runtime: no path
  ends without a response.
\<close>

theorem upstream_failure_gives_500:
  assumes "req_method req \<noteq> ''OPTIONS''"
    and "fetch e (fetchOptions e req) = Inl err \<or>
         (\<exists>up. fetch e (fetchOptions e req) = Inr up \<and> up_arrayBuffer up = Inl err)"
  shows "statusCode (snd (handler e req)) = 500 \<and>
         body (snd (handler e req)) = Json [(''error'', JStr (message err))]"
  using assms
  by (auto simp: handler_def Let_def catch_error_def json_def status_def)

theorem upstream_failure_gives_500_witness:
  "req_method sample_request \<noteq> ''OPTIONS'' \<and>
   fetch failing_env (fetchOptions failing_env sample_request) = Inl (Error ''fetch failed'') \<and>
   statusCode (snd (handler failing_env sample_request)) = 500 \<and>
   body (snd (handler failing_env sample_request)) = Json [(''error'', JStr ''fetch failed'')]"
proof -
  have m: "req_method sample_request \<noteq> ''OPTIONS''"
    by (simp add: sample_request_def)
  have f: "fetch failing_env (fetchOptions failing_env sample_request) = Inl (Error ''fetch failed'')"
    by (simp add: failing_env_def)
  from upstream_failure_gives_500 [OF m, of failing_env "Error ''fetch failed''"] f m show ?thesis
    by simp
qed


text \<open>
  Claim C6 fails as it is stated: an upstream response with a header
  \<open>access-control-allow-methods\<close> is relayed with that header, which replaces the fixed
  list of methods.
\<close>

theorem cors_allow_methods_replaced_by_upstream:
  "getHeader (snd (handler cors_override_env sample_request)) ''Access-Control-Allow-Methods'' = Some ''GET'' \<and>
   getHeader (snd (handler cors_override_env sample_request)) ''Access-Control-Allow-Methods'' \<noteq> Some allow_methods"
  by (simp add: handler_def cors_override_env_def cors_override_upstream_def sample_request_def
      Let_def getHeader_def send_def status_def set_cors_headers_def new_response_def setHeader_def
      dropped_response_headers_def toLowerCase_def toLowerCase_char_def allow_methods_def)


text \<open>
  Claim C6, amended. Every response carries \<open>Access-Control-Allow-Origin: *\<close>. It
  carries the fixed list of methods (of headers) unless an upstream response was received
  that has a header \<open>access-control-allow-methods\<close> (\<open>access-control-allow-headers\<close>) of
  its own; such an upstream header is passed through like any other and replaces the
  fixed value.
\<close>

theorem cors_headers_on_every_response:
  "getHeader (snd (handler e req)) ''Access-Control-Allow-Origin'' = Some ''*'' \<and>
   ((\<forall>up. req_method req \<noteq> ''OPTIONS'' \<and> fetch e (fetchOptions e req) = Inr up \<longrightarrow>
        ''access-control-allow-methods'' \<notin> toLowerCase ` fst ` set (up_headers up)) \<longrightarrow>
    getHeader (snd (handler e req)) ''Access-Control-Allow-Methods'' = Some allow_methods) \<and>
   ((\<forall>up. req_method req \<noteq> ''OPTIONS'' \<and> fetch e (fetchOptions e req) = Inr up \<longrightarrow>
        ''access-control-allow-headers'' \<notin> toLowerCase ` fst ` set (up_headers up)) \<longrightarrow>
    getHeader (snd (handler e req)) ''Access-Control-Allow-Headers'' = Some allow_headers) \<and>
   (\<forall>up xs k v ys. req_method req \<noteq> ''OPTIONS'' \<and> fetch e (fetchOptions e req) = Inr up \<and>
       up_headers up = xs @ (k, v) # ys \<and>
       (toLowerCase k = ''access-control-allow-methods'' \<or> toLowerCase k = ''access-control-allow-headers'') \<and>
       (\<forall>k' \<in> fst ` set ys. toLowerCase k' \<noteq> toLowerCase k) \<longrightarrow>
       getHeader (snd (handler e req)) k = Some v)"
proof -
  let ?cors = "set_cors_headers new_response"
  have low: "toLowerCase ''Access-Control-Allow-Origin'' = ''access-control-allow-origin''"
    "toLowerCase ''Access-Control-Allow-Methods'' = ''access-control-allow-methods''"
    "toLowerCase ''Access-Control-Allow-Headers'' = ''access-control-allow-headers''"
    by (simp_all add: toLowerCase_def toLowerCase_char_def)
  have a: "getHeader (snd (handler e req)) ''Access-Control-Allow-Origin'' = Some ''*''"
  proof -
    have "toLowerCase ''Access-Control-Allow-Origin'' \<in> set dropped_response_headers"
      by (simp add: low dropped_response_headers_def)
    then have "getHeader (relay_headers es (status n ?cors)) ''Access-Control-Allow-Origin'' =
        getHeader ?cors ''Access-Control-Allow-Origin''" for es n
      by (simp add: relay_headers_dropped)
    then show ?thesis
      by (simp add: getHeader_handler getHeader_cors low split: sum.splits)
  qed
  have b: "getHeader (snd (handler e req)) ''Access-Control-Allow-Methods'' = Some allow_methods"
    if "\<forall>up. req_method req \<noteq> ''OPTIONS'' \<and> fetch e (fetchOptions e req) = Inr up \<longrightarrow>
        ''access-control-allow-methods'' \<notin> toLowerCase ` fst ` set (up_headers up)"
    using that
    by (auto simp: getHeader_handler getHeader_cors low relay_headers_absent split: sum.splits)
  have c: "getHeader (snd (handler e req)) ''Access-Control-Allow-Headers'' = Some allow_headers"
    if "\<forall>up. req_method req \<noteq> ''OPTIONS'' \<and> fetch e (fetchOptions e req) = Inr up \<longrightarrow>
        ''access-control-allow-headers'' \<notin> toLowerCase ` fst ` set (up_headers up)"
    using that
    by (auto simp: getHeader_handler getHeader_cors low relay_headers_absent split: sum.splits)
  have d: "getHeader (snd (handler e req)) k = Some v"
    if "req_method req \<noteq> ''OPTIONS''" "fetch e (fetchOptions e req) = Inr up"
      "up_headers up = xs @ (k, v) # ys"
      "toLowerCase k = ''access-control-allow-methods'' \<or> toLowerCase k = ''access-control-allow-headers''"
      "\<forall>k' \<in> fst ` set ys. toLowerCase k' \<noteq> toLowerCase k"
    for up xs k v ys
  proof -
    from that(4) have "toLowerCase k \<notin> set dropped_response_headers"
      by (auto simp: dropped_response_headers_def)
    from relay_headers_last [OF this that(5), of xs v] that(1,2,3)
    show ?thesis by (simp add: getHeader_handler)
  qed
  from a b c d show ?thesis by blast
qed

theorem cors_headers_on_every_response_witness:
  "getHeader (snd (handler sample_env sample_request)) ''Access-Control-Allow-Origin'' = Some ''*'' \<and>
   getHeader (snd (handler sample_env sample_request)) ''Access-Control-Allow-Methods'' = Some allow_methods \<and>
   getHeader (snd (handler sample_env sample_request)) ''Access-Control-Allow-Headers'' = Some allow_headers \<and>
   getHeader (snd (handler cors_override_env sample_request)) ''access-control-allow-methods'' = Some ''GET''"
proof -
  have l: "toLowerCase ` fst ` set (up_headers sample_upstream) = {''content-length'', ''etag''}"
    by (simp add: sample_upstream_def toLowerCase_def toLowerCase_char_def)
  have f: "fetch sample_env c = Inr sample_upstream" for c
    by (simp add: sample_env_def)
  note t = cors_headers_on_every_response [of sample_env sample_request]
  have 1: "getHeader (snd (handler sample_env sample_request)) ''Access-Control-Allow-Origin'' = Some ''*''"
    using t by (elim conjE)
  have 2: "getHeader (snd (handler sample_env sample_request)) ''Access-Control-Allow-Methods'' = Some allow_methods"
    using t l f by simp
  have 3: "getHeader (snd (handler sample_env sample_request)) ''Access-Control-Allow-Headers'' = Some allow_headers"
    using t l f by simp
  have m: "req_method sample_request \<noteq> ''OPTIONS''"
    by (simp add: sample_request_def)
  have g: "fetch cors_override_env (fetchOptions cors_override_env sample_request) = Inr cors_override_upstream"
    by (simp add: cors_override_env_def)
  have h: "up_headers cors_override_upstream = [] @ (''access-control-allow-methods'', ''GET'') # []"
    by (simp add: cors_override_upstream_def)
  have k: "toLowerCase ''access-control-allow-methods'' = ''access-control-allow-methods''"
    by (simp add: toLowerCase_def toLowerCase_char_def)
  from cors_headers_on_every_response [of cors_override_env sample_request]
  have "\<forall>up xs k v ys. req_method sample_request \<noteq> ''OPTIONS'' \<and>
       fetch cors_override_env (fetchOptions cors_override_env sample_request) = Inr up \<and>
       up_headers up = xs @ (k, v) # ys \<and>
       (toLowerCase k = ''access-control-allow-methods'' \<or> toLowerCase k = ''access-control-allow-headers'') \<and>
       (\<forall>k' \<in> fst ` set ys. toLowerCase k' \<noteq> toLowerCase k) \<longrightarrow>
       getHeader (snd (handler cors_override_env sample_request)) k = Some v"
    by (elim conjE)
  from this [rule_format, of cors_override_upstream "[]" "''access-control-allow-methods''" "''GET''" "[]"]
    m g h k
  have 4: "getHeader (snd (handler cors_override_env sample_request)) ''access-control-allow-methods'' = Some ''GET''"
    by simp
  from 1 2 3 4 show ?thesis by blast
qed


text \<open>
  Claim C9 at a binary upload. The comment in the handler says a string or buffer body is
  passed on; but \<open>typeof\<close> of a Buffer is \<open>'object'\<close>, so the body that reaches
  \<open>fetch\<close> is the string \<open>JSON.stringify\<close> makes of the Buffer, not the Buffer.
\<close>

theorem buffer_body_is_stringified:
  "map fc_body (fst (handler e binary_upload_request)) =
     [Some (JStr (JSON_stringify e (JBuffer [104, 105])))] \<and>
   map fc_body (fst (handler e binary_upload_request)) \<noteq> [Some (JBuffer [104, 105])]"
  by (simp add: fst_handler binary_upload_request_def fetchOptions_def forwarded_body_def)

text \<open>The other cases of the body: nothing for \<open>GET\<close> and \<open>HEAD\<close>, nothing for a falsy
  body, a string as it is, a parsed object or array re-serialized.\<close>

lemma forwarded_body_cases:
  "req_method req = ''GET'' \<or> req_method req = ''HEAD'' \<Longrightarrow> forwarded_body e req = None"
  "\<not> truthy (req_body req) \<Longrightarrow> forwarded_body e req = None"
  "req_method req \<noteq> ''GET'' \<Longrightarrow> req_method req \<noteq> ''HEAD'' \<Longrightarrow> req_body req = JStr s \<Longrightarrow> s \<noteq> [] \<Longrightarrow>
     forwarded_body e req = Some (JStr s)"
  "req_method req \<noteq> ''GET'' \<Longrightarrow> req_method req \<noteq> ''HEAD'' \<Longrightarrow> req_body req = JObj kvs \<Longrightarrow>
     forwarded_body e req = Some (JStr (JSON_stringify e (JObj kvs)))"
  "req_method req \<noteq> ''GET'' \<Longrightarrow> req_method req \<noteq> ''HEAD'' \<Longrightarrow> req_body req = JArr xs \<Longrightarrow>
     forwarded_body e req = Some (JStr (JSON_stringify e (JArr xs)))"
  by (auto simp: forwarded_body_def)

section \<open>Properties of the drive list\<close>

text \<open>
  What holds of the persisted list: \<open>getDrives\<close> returns the local drive followed by
  exactly the saved drives; \<open>removeDrive\<close> and \<open>updateDrive\<close> never store an entry
  with the id \<open>local\<close>, and neither does \<open>addDrive\<close> when the new configuration has
  another id.
\<close>

lemma getDrives_local_first:
  "getDrives prefs = defaultLocal # (case prefs of None \<Rightarrow> [] | Some ds \<Rightarrow> ds)"
  by (simp add: getDrives_def)

lemma removeDrive_no_local: "no_local_stored (removeDrive driveId prefs)"
  by (simp add: removeDrive_def no_local_stored_def list_all_iff)

lemma addDrive_no_local:
  "drive_id driveConfig \<noteq> ''local'' \<Longrightarrow> no_local_stored (snd (addDrive driveConfig prefs))"
  by (simp add: addDrive_def no_local_stored_def list_all_iff Let_def)

lemma updateDrive_no_local:
  "no_local_stored prefs \<Longrightarrow> no_local_stored (updateDrive driveId updates prefs)"
  by (simp add: updateDrive_def no_local_stored_def list_all_iff Let_def split: option.splits)

lemma run_drive_ops_no_local:
  "no_local_stored prefs \<Longrightarrow> \<forall>c. AddDrive c \<in> set ops \<longrightarrow> drive_id c \<noteq> ''local'' \<Longrightarrow>
     no_local_stored (run_drive_ops ops prefs)"
proof (induction ops arbitrary: prefs)
  case Nil
  then show ?case by (simp add: run_drive_ops_def)
next
  case (Cons x ops)
  have "no_local_stored (apply_drive_op x prefs)"
  proof (cases x)
    case (AddDrive c)
    with Cons.prems(2) show ?thesis by (simp add: addDrive_no_local)
  next
    case (RemoveDrive i)
    then show ?thesis by (simp add: removeDrive_no_local)
  next
    case (UpdateDrive i u)
    with Cons.prems(1) show ?thesis by (simp add: updateDrive_no_local)
  qed
  with Cons.IH [of "apply_drive_op x prefs"] Cons.prems(2) show ?case
    by (simp add: run_drive_ops_def)
qed

text \<open>
  Claim C7 at an \<open>addDrive\<close> call whose configuration has the id \<open>local\<close>. The
  comment in \<open>addDrive\<close> says \<open>local\<close> is removed from the list before saving, and
  \<open>updateDrive\<close> filters after it has changed the list; \<open>addDrive\<close> filters the old
  list only and appends the new configuration unfiltered, so the entry is stored and
  \<open>getDrives\<close> then returns two drives with the id \<open>local\<close>.
\<close>

theorem addDrive_stores_local_config:
  "run_drive_ops [AddDrive local_id_drive] None = Some [local_id_drive] \<and>
   drive_id local_id_drive = ''local'' \<and>
   \<not> no_local_stored (run_drive_ops [AddDrive local_id_drive] None) \<and>
   getDrives (run_drive_ops [AddDrive local_id_drive] None) = [defaultLocal, local_id_drive]"
  by (simp add: run_drive_ops_def addDrive_def getDrives_def defaultLocal_def local_id_drive_def
      no_local_stored_def Let_def)

section \<open>Properties of move\<close>

text \<open>The last element of \<open>split\<close> is the text after the last separator.\<close>

lemma split_not_Nil [simp]: "split sep s \<noteq> []"
  by (induction s) (auto split: list.splits)

lemma split_no_sep: "sep \<notin> set s \<Longrightarrow> split sep s = [s]"
  by (induction s) auto

lemma split_has_sep: "sep \<in> set s \<Longrightarrow> \<exists>x y ys. split sep s = x # y # ys"
proof (induction s)
  case Nil
  then show ?case by simp
next
  case (Cons c cs)
  show ?case
  proof (cases "c = sep")
    case True
    then show ?thesis by (cases "split sep cs") auto
  next
    case False
    with Cons.prems have "sep \<in> set cs" by simp
    from Cons.IH [OF this] False show ?thesis by auto
  qed
qed

lemma takeWhile_snoc_stop: "\<not> P c \<Longrightarrow> takeWhile P (xs @ [c]) = takeWhile P xs"
  by (induction xs) auto

lemma last_split: "last (split sep s) = rev (takeWhile (\<lambda>c. c \<noteq> sep) (rev s))"
proof (induction s)
  case Nil
  then show ?case by simp
next
  case (Cons c cs)
  show ?case
  proof (cases "c = sep")
    case True
    then have "last (split sep (c # cs)) = last (split sep cs)" by simp
    moreover from True have "takeWhile (\<lambda>c. c \<noteq> sep) (rev cs @ [c]) = takeWhile (\<lambda>c. c \<noteq> sep) (rev cs)"
      by (simp add: takeWhile_snoc_stop)
    ultimately show ?thesis using Cons.IH by simp
  next
    case False
    show ?thesis
    proof (cases "sep \<in> set cs")
      case True
      from split_has_sep [OF this] obtain x y ys where s: "split sep cs = x # y # ys" by blast
      with False have "last (split sep (c # cs)) = last (split sep cs)" by simp
      moreover from True have "takeWhile (\<lambda>c. c \<noteq> sep) (rev cs @ [c]) = takeWhile (\<lambda>c. c \<noteq> sep) (rev cs)"
        by (intro takeWhile_append1 [of sep]) auto
      ultimately show ?thesis using Cons.IH by simp
    next
      case nosep: False
      with False have "sep \<notin> set (c # cs)" by simp
      then have a: "split sep (c # cs) = [c # cs]" by (rule split_no_sep)
      from nosep False have b: "takeWhile (\<lambda>c. c \<noteq> sep) (rev (c # cs)) = rev (c # cs)"
        unfolding takeWhile_eq_all_conv by auto
      show ?thesis unfolding a b by simp
    qed
  qed
qed

lemma basename_pop_split:
  "to_string (pop (split sep s)) = rev (takeWhile (\<lambda>c. c \<noteq> sep) (rev s))"
  by (simp add: to_string_def pop_def last_split)

text \<open>
  Claim C8 fails as it is stated: on the local drive off a native platform (the browser)
  \<open>move\<close> relocates nothing, whatever the items.
\<close>

theorem move_local_in_browser_relocates_nothing:
  "fst (move False (\<lambda>r. None) [''/a.txt''] ''/docs'' defaultLocal) = [] \<and>
   length (fst (move False (\<lambda>r. None) [''/a.txt''] ''/docs'' defaultLocal)) \<noteq> length [''/a.txt'']"
  by (simp add: move_def defaultLocal_def)

text \<open>
  Claim C8, amended. On a drive that is not local (and whose WebDAV client can be
  created), or on the local drive on a native platform, \<open>move\<close> issues exactly one
  relocation per item, in item order: from the item to the destination joined with the
  item's last path segment (local: \<open>/name\<close> when the destination is \<open>/\<close>, else
  \<open>destination/name\<close>; WebDAV: the destination without its trailing slashes, then
  \<open>/name\<close>). The requests issued do not depend on what the backend answers to any of
  them, and nothing else is issued: a rejection neither prevents nor undoes another
  item's relocation; the rejections are those of the requests issued. On the local drive
  off a native platform \<open>move\<close> issues no request at all and resolves, whatever the
  items.
\<close>

theorem move_issues_one_relocation_per_item:
  "(drive_type d = ''local'' \<and> isNativePlatform \<longrightarrow>
      length (fst (move isNativePlatform backend items destination d)) = length items \<and>
      fst (move isNativePlatform backend items destination d) =
        map (\<lambda>item. Filesystem_rename item
               ((if destination = ''/'' then [] else destination) @ ''/'' @
                  rev (takeWhile (\<lambda>c. c \<noteq> CHR ''/'') (rev item)))) items \<and>
      snd (move isNativePlatform backend items destination d) =
        List.map_filter backend (fst (move isNativePlatform backend items destination d))) \<and>
   (drive_type d = ''local'' \<and> \<not> isNativePlatform \<longrightarrow>
      move isNativePlatform backend items destination d = ([], [])) \<and>
   (drive_type d \<noteq> ''local'' \<and> (isNativePlatform \<or> drive_url d \<noteq> None) \<longrightarrow>
      length (fst (move isNativePlatform backend items destination d)) = length items \<and>
      (\<exists>client. createWebDAVClient isNativePlatform d = Inr client \<and>
         fst (move isNativePlatform backend items destination d) =
           map (\<lambda>item. Client_moveFile client item
                  (strip_trailing_slashes destination @ ''/'' @
                     rev (takeWhile (\<lambda>c. c \<noteq> CHR ''/'') (rev item)))) items) \<and>
      snd (move isNativePlatform backend items destination d) =
        List.map_filter backend (fst (move isNativePlatform backend items destination d)))"
proof -
  have 1: "drive_type d = ''local'' \<and> isNativePlatform \<longrightarrow>
      length (fst (move isNativePlatform backend items destination d)) = length items \<and>
      fst (move isNativePlatform backend items destination d) =
        map (\<lambda>item. Filesystem_rename item
               ((if destination = ''/'' then [] else destination) @ ''/'' @
                  rev (takeWhile (\<lambda>c. c \<noteq> CHR ''/'') (rev item)))) items \<and>
      snd (move isNativePlatform backend items destination d) =
        List.map_filter backend (fst (move isNativePlatform backend items destination d))"
    by (simp add: move_def promise_all_def basename_pop_split Let_def)
  have 2: "drive_type d = ''local'' \<and> \<not> isNativePlatform \<longrightarrow>
      move isNativePlatform backend items destination d = ([], [])"
    by (simp add: move_def)
  have 3: "drive_type d \<noteq> ''local'' \<and> (isNativePlatform \<or> drive_url d \<noteq> None) \<longrightarrow>
      length (fst (move isNativePlatform backend items destination d)) = length items \<and>
      (\<exists>client. createWebDAVClient isNativePlatform d = Inr client \<and>
         fst (move isNativePlatform backend items destination d) =
           map (\<lambda>item. Client_moveFile client item
                  (strip_trailing_slashes destination @ ''/'' @
                     rev (takeWhile (\<lambda>c. c \<noteq> CHR ''/'') (rev item)))) items) \<and>
      snd (move isNativePlatform backend items destination d) =
        List.map_filter backend (fst (move isNativePlatform backend items destination d))"
  proof (rule impI)
    assume a: "drive_type d \<noteq> ''local'' \<and> (isNativePlatform \<or> drive_url d \<noteq> None)"
    then have "\<exists>client. createWebDAVClient isNativePlatform d = Inr client"
      by (cases "drive_url d") (auto simp: createWebDAVClient_def)
    then obtain client where c: "createWebDAVClient isNativePlatform d = Inr client" ..
    with a show "length (fst (move isNativePlatform backend items destination d)) = length items \<and>
        (\<exists>client. createWebDAVClient isNativePlatform d = Inr client \<and>
           fst (move isNativePlatform backend items destination d) =
             map (\<lambda>item. Client_moveFile client item
                    (strip_trailing_slashes destination @ ''/'' @
                       rev (takeWhile (\<lambda>c. c \<noteq> CHR ''/'') (rev item)))) items) \<and>
        snd (move isNativePlatform backend items destination d) =
          List.map_filter backend (fst (move isNativePlatform backend items destination d))"
      by (simp add: move_def promise_all_def basename_pop_split Let_def)
  qed
  from 1 2 3 show ?thesis by (intro conjI)
qed

theorem move_issues_one_relocation_per_item_witness:
  "drive_type nas_drive \<noteq> ''local'' \<and> drive_url nas_drive \<noteq> None \<and>
   fst (move False (\<lambda>r. Some (Error ''423 Locked'')) [''/a/b.txt'', ''/c''] ''/docs/'' nas_drive) =
     [Client_moveFile \<lparr>client_url = Some ''https://nas.example/dav'', client_username = Some ''u'',
        client_password = Some ''p''\<rparr> ''/a/b.txt'' ''/docs/b.txt'',
      Client_moveFile \<lparr>client_url = Some ''https://nas.example/dav'', client_username = Some ''u'',
        client_password = Some ''p''\<rparr> ''/c'' ''/docs/c''] \<and>
   snd (move False (\<lambda>r. Some (Error ''423 Locked'')) [''/a/b.txt'', ''/c''] ''/docs/'' nas_drive) =
     [Error ''423 Locked'', Error ''423 Locked''] \<and>
   drive_type defaultLocal = ''local'' \<and>
   fst (move True (\<lambda>r. Some (Error ''EEXIST'')) [''/a/b.txt'', ''/c''] ''/'' defaultLocal) =
     [Filesystem_rename ''/a/b.txt'' ''/b.txt'', Filesystem_rename ''/c'' ''/c''] \<and>
   move False (\<lambda>r. Some (Error ''EEXIST'')) [''/a/b.txt'', ''/c''] ''/'' defaultLocal = ([], [])"
proof -
  have t: "drive_type nas_drive \<noteq> ''local''" and u: "drive_url nas_drive \<noteq> None"
    by (simp_all add: nas_drive_def)
  have l: "drive_type defaultLocal = ''local''"
    by (simp add: defaultLocal_def)
  have c: "createWebDAVClient False nas_drive =
      Inr \<lparr>client_url = Some ''https://nas.example/dav'', client_username = Some ''u'',
        client_password = Some ''p''\<rparr>"
    by (simp add: createWebDAVClient_def nas_drive_def string_includes_def)
  have 1: "fst (move False (\<lambda>r. Some (Error ''423 Locked'')) [''/a/b.txt'', ''/c''] ''/docs/'' nas_drive) =
     [Client_moveFile \<lparr>client_url = Some ''https://nas.example/dav'', client_username = Some ''u'',
        client_password = Some ''p''\<rparr> ''/a/b.txt'' ''/docs/b.txt'',
      Client_moveFile \<lparr>client_url = Some ''https://nas.example/dav'', client_username = Some ''u'',
        client_password = Some ''p''\<rparr> ''/c'' ''/docs/c''] \<and>
   snd (move False (\<lambda>r. Some (Error ''423 Locked'')) [''/a/b.txt'', ''/c''] ''/docs/'' nas_drive) =
     [Error ''423 Locked'', Error ''423 Locked'']"
    using move_issues_one_relocation_per_item
      [of nas_drive False "\<lambda>r. Some (Error ''423 Locked'')" "[''/a/b.txt'', ''/c'']" "''/docs/''"] t u c
    by (simp add: strip_trailing_slashes_def List.map_filter_simps)
  have 2: "fst (move True (\<lambda>r. Some (Error ''EEXIST'')) [''/a/b.txt'', ''/c''] ''/'' defaultLocal) =
     [Filesystem_rename ''/a/b.txt'' ''/b.txt'', Filesystem_rename ''/c'' ''/c'']"
    using move_issues_one_relocation_per_item
      [of defaultLocal True "\<lambda>r. Some (Error ''EEXIST'')" "[''/a/b.txt'', ''/c'']" "''/''"] l
    by simp
  have 3: "move False (\<lambda>r. Some (Error ''EEXIST'')) [''/a/b.txt'', ''/c''] ''/'' defaultLocal = ([], [])"
    using move_issues_one_relocation_per_item
      [of defaultLocal False "\<lambda>r. Some (Error ''EEXIST'')" "[''/a/b.txt'', ''/c'']" "''/''"] l
    by simp
  from t u 1 l 2 3 show ?thesis by (intro conjI) simp_all
qed

section \<open>Properties of sortedFiles\<close>

lemma mset_insert_sorted: "mset (insert_sorted f x ys) = add_mset x (mset ys)"
  by (induction ys) auto

lemma mset_array_sort: "mset (array_sort f xs) = mset xs"
  by (induction xs) (auto simp: array_sort_def mset_insert_sorted)

lemma set_insert_sorted: "set (insert_sorted f x ys) = insert x (set ys)"
  by (induction ys) auto

lemma compareFiles_kinds:
  "isDirectory a \<noteq> isDirectory b \<Longrightarrow>
     compareFiles env cfg a b = Some (if isDirectory a then - 1 else 1)"
  by (simp add: compareFiles_def)

lemma folders_first_insert:
  assumes "sorted_wrt (\<lambda>a b. isDirectory b \<longrightarrow> isDirectory a) ys"
  shows "sorted_wrt (\<lambda>a b. isDirectory b \<longrightarrow> isDirectory a)
           (insert_sorted (compareFiles env cfg) x ys)"
  using assms
proof (induction ys)
  case Nil
  then show ?case by simp
next
  case (Cons y ys)
  show ?case
  proof (cases "sort_compare (compareFiles env cfg) x y \<le> 0")
    case True
    have "isDirectory y \<longrightarrow> isDirectory x"
    proof (rule impI, rule ccontr)
      assume "isDirectory y" and "\<not> isDirectory x"
      then have "compareFiles env cfg x y = Some 1"
        using compareFiles_kinds [of x y env cfg] by simp
      with True show False by (simp add: sort_compare_def)
    qed
    with True Cons.prems show ?thesis by auto
  next
    case False
    have "isDirectory x \<longrightarrow> isDirectory y"
    proof (rule impI, rule ccontr)
      assume "isDirectory x" and "\<not> isDirectory y"
      then have "compareFiles env cfg x y = Some (- 1)"
        using compareFiles_kinds [of x y env cfg] by simp
      with False show False by (simp add: sort_compare_def)
    qed
    with False Cons show ?thesis by (auto simp: set_insert_sorted)
  qed
qed

lemma folders_first_array_sort:
  "sorted_wrt (\<lambda>a b. isDirectory b \<longrightarrow> isDirectory a) (array_sort (compareFiles env cfg) xs)"
  by (induction xs) (auto simp: array_sort_def folders_first_insert)

text \<open>
  Consequences of consistency: the order of the comparison function is total and
  transitive, insertion keeps a list in that order, and elements that compare equal keep
  their relative order.
\<close>

lemma consistent_refl: "consistent_on f S \<Longrightarrow> a \<in> S \<Longrightarrow> sort_compare f a a = 0"
  by (simp add: consistent_on_def)

lemma consistent_sym:
  "consistent_on f S \<Longrightarrow> a \<in> S \<Longrightarrow> b \<in> S \<Longrightarrow> sort_compare f a b = 0 \<Longrightarrow> sort_compare f b a = 0"
  unfolding consistent_on_def by blast

lemma consistent_trans_eq:
  "consistent_on f S \<Longrightarrow> a \<in> S \<Longrightarrow> b \<in> S \<Longrightarrow> c \<in> S \<Longrightarrow>
     sort_compare f a b = 0 \<Longrightarrow> sort_compare f b c = 0 \<Longrightarrow> sort_compare f a c = 0"
  unfolding consistent_on_def by blast

lemma consistent_trans_lt:
  "consistent_on f S \<Longrightarrow> a \<in> S \<Longrightarrow> b \<in> S \<Longrightarrow> c \<in> S \<Longrightarrow>
     sort_compare f a b < 0 \<Longrightarrow> sort_compare f b c < 0 \<Longrightarrow> sort_compare f a c < 0"
  unfolding consistent_on_def by blast

lemma consistent_trans_gt:
  "consistent_on f S \<Longrightarrow> a \<in> S \<Longrightarrow> b \<in> S \<Longrightarrow> c \<in> S \<Longrightarrow>
     sort_compare f a b > 0 \<Longrightarrow> sort_compare f b c > 0 \<Longrightarrow> sort_compare f a c > 0"
  unfolding consistent_on_def by blast

lemma consistent_lt_gt:
  assumes "consistent_on f S" "a \<in> S" "b \<in> S" "sort_compare f a b < 0"
  shows "sort_compare f b a > 0"
proof (rule ccontr)
  assume "\<not> sort_compare f b a > 0"
  then consider "sort_compare f b a < 0" | "sort_compare f b a = 0" by linarith
  then show False
  proof cases
    case 1
    with assms have "sort_compare f a a < 0" by (meson consistent_trans_lt)
    with assms show False by (simp add: consistent_refl)
  next
    case 2
    with assms have "sort_compare f a b = 0" by (meson consistent_sym)
    with assms show False by simp
  qed
qed

lemma consistent_gt_lt:
  assumes "consistent_on f S" "a \<in> S" "b \<in> S" "sort_compare f a b > 0"
  shows "sort_compare f b a < 0"
proof (rule ccontr)
  assume "\<not> sort_compare f b a < 0"
  then consider "sort_compare f b a > 0" | "sort_compare f b a = 0" by linarith
  then show False
  proof cases
    case 1
    with assms have "sort_compare f a a > 0" by (meson consistent_trans_gt)
    with assms show False by (simp add: consistent_refl)
  next
    case 2
    with assms have "sort_compare f a b = 0" by (meson consistent_sym)
    with assms show False by simp
  qed
qed

lemma consistent_le_trans:
  assumes c: "consistent_on f S" and m: "a \<in> S" "b \<in> S" "c \<in> S"
    and ab: "sort_compare f a b \<le> 0" and bc: "sort_compare f b c \<le> 0"
  shows "sort_compare f a c \<le> 0"
proof (rule ccontr)
  assume "\<not> sort_compare f a c \<le> 0"
  then have ac: "sort_compare f a c > 0" by simp
  then have ca: "sort_compare f c a < 0" using c m by (meson consistent_gt_lt)
  consider "sort_compare f a b < 0" | "sort_compare f a b = 0" using ab by linarith
  then show False
  proof cases
    case 1
    then have "sort_compare f c b < 0" using c m ca by (meson consistent_trans_lt)
    then have "sort_compare f b c > 0" using c m by (meson consistent_lt_gt)
    with bc show False by simp
  next
    case 2
    then have ba: "sort_compare f b a = 0" using c m by (meson consistent_sym)
    consider "sort_compare f b c < 0" | "sort_compare f b c = 0" using bc by linarith
    then show False
    proof cases
      case 1
      then have "sort_compare f b a < 0" using c m ca by (meson consistent_trans_lt)
      with ba show False by simp
    next
      case 2
      with \<open>sort_compare f a b = 0\<close> have "sort_compare f a c = 0"
        using c m by (meson consistent_trans_eq)
      with ac show False by simp
    qed
  qed
qed

lemma sorted_insert_sorted:
  assumes c: "consistent_on f S" and x: "x \<in> S" and ys: "set ys \<subseteq> S"
    and s: "sorted_wrt (\<lambda>a b. sort_compare f a b \<le> 0) ys"
  shows "sorted_wrt (\<lambda>a b. sort_compare f a b \<le> 0) (insert_sorted f x ys)"
  using ys s
proof (induction ys)
  case Nil
  then show ?case by simp
next
  case (Cons y ys)
  show ?case
  proof (cases "sort_compare f x y \<le> 0")
    case True
    have "sort_compare f x z \<le> 0" if "z \<in> set ys" for z
    proof -
      from that Cons.prems have "sort_compare f y z \<le> 0" "z \<in> S" "y \<in> S" by auto
      with True c x show ?thesis by (meson consistent_le_trans)
    qed
    with True Cons.prems show ?thesis by auto
  next
    case False
    then have "sort_compare f x y > 0" by simp
    with c x Cons.prems have "sort_compare f y x < 0" by (auto intro: consistent_gt_lt)
    with False Cons show ?thesis by (auto simp: set_insert_sorted)
  qed
qed

lemma sorted_array_sort:
  assumes "consistent_on f S" and "set xs \<subseteq> S"
  shows "sorted_wrt (\<lambda>a b. sort_compare f a b \<le> 0) (array_sort f xs)"
  using assms(2)
proof (induction xs)
  case Nil
  then show ?case by (simp add: array_sort_def)
next
  case (Cons x xs)
  have "set (array_sort f xs) = set xs"
    by (metis mset_array_sort set_mset_mset)
  with Cons assms(1) show ?case
    using sorted_insert_sorted [of f S x "array_sort f xs"]
    by (simp add: array_sort_def)
qed

lemma sort_compare_kinds:
  "isDirectory a \<noteq> isDirectory b \<Longrightarrow>
     sort_compare (compareFiles env cfg) a b = (if isDirectory a then - 1 else 1)"
  by (simp add: sort_compare_def compareFiles_kinds)

lemma sort_compare_desc:
  assumes "direction cfg \<noteq> ''desc''"
  shows "sort_compare (compareFiles env (cfg\<lparr>direction := ''desc''\<rparr>)) a b =
    (if isDirectory a \<noteq> isDirectory b then sort_compare (compareFiles env cfg) a b
     else - sort_compare (compareFiles env cfg) a b)"
  using assms
  by (auto simp: sort_compare_def compareFiles_def num_neg_def Let_def split: option.splits)

lemma compareFiles_desc_None:
  assumes "direction cfg \<noteq> ''desc''"
  shows "compareFiles env (cfg\<lparr>direction := ''desc''\<rparr>) a b = None \<longleftrightarrow>
         compareFiles env cfg a b = None"
  using assms by (auto simp: compareFiles_def num_neg_def Let_def)

lemma consistent_desc:
  assumes c: "consistent_on (compareFiles env cfg) S" and d: "direction cfg \<noteq> ''desc''"
  shows "consistent_on (compareFiles env (cfg\<lparr>direction := ''desc''\<rparr>)) S"
proof -
  let ?c = "sort_compare (compareFiles env cfg)"
  let ?d = "sort_compare (compareFiles env (cfg\<lparr>direction := ''desc''\<rparr>))"
  have dd: "?d a b = (if isDirectory a \<noteq> isDirectory b then (if isDirectory a then - 1 else 1)
                      else - ?c a b)" for a b
    using sort_compare_desc [OF d, of env a b] sort_compare_kinds [of a b env cfg] by simp
  have 1: "\<forall>a\<in>S. \<forall>b\<in>S. compareFiles env (cfg\<lparr>direction := ''desc''\<rparr>) a b \<noteq> None"
    using c by (simp add: compareFiles_desc_None [OF d] consistent_on_def)
  have 2: "\<forall>a\<in>S. ?d a a = 0"
    using c by (simp add: dd consistent_refl)
  have 3: "\<forall>a\<in>S. \<forall>b\<in>S. ?d a b = 0 \<longrightarrow> ?d b a = 0"
  proof (intro ballI impI)
    fix a b assume "a \<in> S" "b \<in> S" "?d a b = 0"
    then show "?d b a = 0"
      using consistent_sym [OF c, of a b] by (auto simp: dd split: if_splits)
  qed
  have 4: "\<forall>a\<in>S. \<forall>b\<in>S. \<forall>x\<in>S. ?d a b = 0 \<and> ?d b x = 0 \<longrightarrow> ?d a x = 0"
  proof (intro ballI impI)
    fix a b x assume "a \<in> S" "b \<in> S" "x \<in> S" "?d a b = 0 \<and> ?d b x = 0"
    then show "?d a x = 0"
      using consistent_trans_eq [OF c, of a b x] by (auto simp: dd split: if_splits)
  qed
  have 5: "\<forall>a\<in>S. \<forall>b\<in>S. \<forall>x\<in>S. ?d a b < 0 \<and> ?d b x < 0 \<longrightarrow> ?d a x < 0"
  proof (intro ballI impI)
    fix a b x assume "a \<in> S" "b \<in> S" "x \<in> S" "?d a b < 0 \<and> ?d b x < 0"
    then show "?d a x < 0"
      using consistent_trans_gt [OF c, of a b x] by (auto simp: dd split: if_splits)
  qed
  have 6: "\<forall>a\<in>S. \<forall>b\<in>S. \<forall>x\<in>S. ?d a b > 0 \<and> ?d b x > 0 \<longrightarrow> ?d a x > 0"
  proof (intro ballI impI)
    fix a b x assume "a \<in> S" "b \<in> S" "x \<in> S" "?d a b > 0 \<and> ?d b x > 0"
    then show "?d a x > 0"
      using consistent_trans_lt [OF c, of a b x] by (auto simp: dd split: if_splits)
  qed
  from 1 2 3 4 5 6 show ?thesis
    unfolding consistent_on_def by blast
qed

lemma filter_insert_sorted_equal:
  assumes c: "consistent_on f S" and m: "e \<in> S" "x \<in> S" "set ys \<subseteq> S"
  shows "filter (\<lambda>z. sort_compare f e z = 0) (insert_sorted f x ys) =
         filter (\<lambda>z. sort_compare f e z = 0) (x # ys)"
  using m(3)
proof (induction ys)
  case Nil
  then show ?case by simp
next
  case (Cons y ys)
  show ?case
  proof (cases "sort_compare f x y \<le> 0")
    case True
    then show ?thesis by simp
  next
    case False
    have "\<not> (sort_compare f e x = 0 \<and> sort_compare f e y = 0)"
    proof
      assume a: "sort_compare f e x = 0 \<and> sort_compare f e y = 0"
      from Cons.prems have y: "y \<in> S" by simp
      from a have "sort_compare f x e = 0" using c m by (meson consistent_sym)
      with a have "sort_compare f x y = 0" using c m y by (meson consistent_trans_eq)
      with False show False by simp
    qed
    with False Cons show ?thesis by auto
  qed
qed

lemma stable_array_sort:
  assumes c: "consistent_on f S" and e: "e \<in> S"
  shows "set xs \<subseteq> S \<Longrightarrow>
    filter (\<lambda>z. sort_compare f e z = 0) (array_sort f xs) = filter (\<lambda>z. sort_compare f e z = 0) xs"
proof (induction xs)
  case Nil
  then show ?case by (simp add: array_sort_def)
next
  case (Cons x xs)
  have s: "set (array_sort f xs) = set xs"
    by (metis mset_array_sort set_mset_mset)
  have "filter (\<lambda>z. sort_compare f e z = 0) (array_sort f (x # xs)) =
        filter (\<lambda>z. sort_compare f e z = 0) (x # array_sort f xs)"
    using filter_insert_sorted_equal [OF c e, of x "array_sort f xs"] Cons.prems s
    by (simp add: array_sort_def)
  with Cons show ?case by simp
qed

lemma sorted_before:
  assumes c: "consistent_on f S" and l: "set xs \<subseteq> S"
    and s: "sorted_wrt (\<lambda>a b. sort_compare f a b \<le> 0) xs"
    and i: "i < length xs" and j: "j < length xs"
    and lt: "sort_compare f (xs ! i) (xs ! j) < 0"
  shows "i < j"
proof (rule ccontr)
  assume "\<not> i < j"
  then consider "j < i" | "i = j" by linarith
  then show False
  proof cases
    case 1
    with s i have "sort_compare f (xs ! j) (xs ! i) \<le> 0"
      by (simp add: sorted_wrt_iff_nth_less)
    moreover from l i j have "xs ! i \<in> S" "xs ! j \<in> S" by auto
    with c lt have "sort_compare f (xs ! j) (xs ! i) > 0" by (meson consistent_lt_gt)
    ultimately show False by simp
  next
    case 2
    from l i have "xs ! i \<in> S" by auto
    with c have "sort_compare f (xs ! i) (xs ! i) = 0" by (rule consistent_refl)
    with 2 lt show False by simp
  qed
qed

text \<open>
  Claim C10 fails as it is stated: under the key \<open>type\<close> two files with the same
  extension compare equal, and the listing has them in the same order for \<open>asc\<close> and
  for \<open>desc\<close>; reversing the direction does not invert their order.
\<close>

theorem sortedFiles_ties_not_inverted:
  "consistent_on (compareFiles sample_sort_env \<lparr>key = ''type'', direction = ''asc''\<rparr>) (set two_text_files) \<and>
   sortedFiles sample_sort_env \<lparr>key = ''type'', direction = ''asc''\<rparr> two_text_files = two_text_files \<and>
   sortedFiles sample_sort_env \<lparr>key = ''type'', direction = ''desc''\<rparr> two_text_files = two_text_files \<and>
   sortedFiles sample_sort_env \<lparr>key = ''type'', direction = ''desc''\<rparr> two_text_files \<noteq>
     rev (sortedFiles sample_sort_env \<lparr>key = ''type'', direction = ''asc''\<rparr> two_text_files)"
  by (simp add: consistent_on_def two_text_files_def sample_file_def sample_sort_env_def
      sort_compare_def compareFiles_def num_neg_def sortedFiles_def array_sort_def
      to_string_def pop_def)

text \<open>
  Claim C10, amended. Let the comparison function be consistent on the filtered files
  (every date valid), so that the language fixes the result of \<open>sort\<close>. Then for
  every sort key and direction the sorted listing is a rearrangement of the filtered
  files, in the order of the comparison function, with entries that compare equal in
  their original order, and no file stands before a folder. Across kinds the comparison
  function answers \<open>-1\<close> or \<open>1\<close> by kind alone, whatever the key and the direction;
  between two entries of the same kind the direction \<open>desc\<close> negates the result the
  other direction gives. In the listings of the two directions folders come first in
  both; two entries of the same kind that do not compare equal stand in opposite orders;
  entries that compare equal stand in the same order.
\<close>

theorem sortedFiles_folders_first:
  assumes c: "consistent_on (compareFiles env cfg) (set files)"
  shows
   "mset (sortedFiles env cfg files) = mset files \<and>
    sorted_wrt (\<lambda>a b. sort_compare (compareFiles env cfg) a b \<le> 0) (sortedFiles env cfg files) \<and>
    (\<forall>e\<in>set files.
       filter (\<lambda>z. sort_compare (compareFiles env cfg) e z = 0) (sortedFiles env cfg files) =
       filter (\<lambda>z. sort_compare (compareFiles env cfg) e z = 0) files) \<and>
    (\<forall>i j. i < j \<and> j < length (sortedFiles env cfg files) \<and>
       isDirectory (sortedFiles env cfg files ! j) \<longrightarrow> isDirectory (sortedFiles env cfg files ! i)) \<and>
    (\<forall>a b. isDirectory a \<noteq> isDirectory b \<longrightarrow>
       compareFiles env cfg a b = Some (if isDirectory a then - 1 else 1)) \<and>
    (\<forall>a b. isDirectory a = isDirectory b \<and> direction cfg \<noteq> ''desc'' \<longrightarrow>
       compareFiles env (cfg\<lparr>direction := ''desc''\<rparr>) a b = num_neg (compareFiles env cfg a b)) \<and>
    (\<forall>ys. sorted_wrt (\<lambda>a b. sort_compare (compareFiles env cfg) a b \<le> 0) ys \<longrightarrow>
       sorted_wrt (\<lambda>a b. isDirectory b \<longrightarrow> isDirectory a) ys) \<and>
    (direction cfg \<noteq> ''desc'' \<longrightarrow>
       (\<forall>i j. i < j \<and> j < length (sortedFiles env (cfg\<lparr>direction := ''desc''\<rparr>) files) \<and>
          isDirectory (sortedFiles env (cfg\<lparr>direction := ''desc''\<rparr>) files ! j) \<longrightarrow>
          isDirectory (sortedFiles env (cfg\<lparr>direction := ''desc''\<rparr>) files ! i)) \<and>
       (\<forall>i j i' j'. i < j \<and> j < length (sortedFiles env cfg files) \<and>
          i' < length (sortedFiles env (cfg\<lparr>direction := ''desc''\<rparr>) files) \<and>
          j' < length (sortedFiles env (cfg\<lparr>direction := ''desc''\<rparr>) files) \<and>
          sortedFiles env (cfg\<lparr>direction := ''desc''\<rparr>) files ! i' = sortedFiles env cfg files ! i \<and>
          sortedFiles env (cfg\<lparr>direction := ''desc''\<rparr>) files ! j' = sortedFiles env cfg files ! j \<and>
          isDirectory (sortedFiles env cfg files ! i) = isDirectory (sortedFiles env cfg files ! j) \<and>
          sort_compare (compareFiles env cfg) (sortedFiles env cfg files ! i) (sortedFiles env cfg files ! j) \<noteq> 0
          \<longrightarrow> j' < i') \<and>
       (\<forall>e\<in>set files.
          filter (\<lambda>z. sort_compare (compareFiles env cfg) e z = 0)
            (sortedFiles env (cfg\<lparr>direction := ''desc''\<rparr>) files) =
          filter (\<lambda>z. sort_compare (compareFiles env cfg) e z = 0) (sortedFiles env cfg files)))"
proof -
  let ?c = "compareFiles env cfg"
  let ?d = "compareFiles env (cfg\<lparr>direction := ''desc''\<rparr>)"
  let ?A = "sortedFiles env cfg files"
  let ?D = "sortedFiles env (cfg\<lparr>direction := ''desc''\<rparr>) files"
  have setA: "set ?A = set files" and setD: "set ?D = set files"
    by (metis mset_array_sort set_mset_mset sortedFiles_def)+
  have lenA: "length ?A = length files"
    by (metis mset_array_sort size_mset sortedFiles_def)
  have p1: "mset ?A = mset files"
    by (simp add: sortedFiles_def mset_array_sort)
  have p2: "sorted_wrt (\<lambda>a b. sort_compare ?c a b \<le> 0) ?A"
    unfolding sortedFiles_def using c by (rule sorted_array_sort) simp
  have p3: "\<forall>e\<in>set files. filter (\<lambda>z. sort_compare ?c e z = 0) ?A =
      filter (\<lambda>z. sort_compare ?c e z = 0) files"
    unfolding sortedFiles_def using stable_array_sort [OF c] by blast
  have ff: "\<forall>i j. i < j \<and> j < length (sortedFiles env g files) \<and>
      isDirectory (sortedFiles env g files ! j) \<longrightarrow> isDirectory (sortedFiles env g files ! i)" for g
  proof -
    have "sorted_wrt (\<lambda>a b. isDirectory b \<longrightarrow> isDirectory a) (sortedFiles env g files)"
      by (simp add: sortedFiles_def folders_first_array_sort)
    then show ?thesis unfolding sorted_wrt_iff_nth_less by blast
  qed
  have p5: "\<forall>a b. isDirectory a \<noteq> isDirectory b \<longrightarrow>
      ?c a b = Some (if isDirectory a then - 1 else 1)"
    by (simp add: compareFiles_kinds)
  have p6: "\<forall>a b. isDirectory a = isDirectory b \<and> direction cfg \<noteq> ''desc'' \<longrightarrow>
      ?d a b = num_neg (?c a b)"
    by (simp add: compareFiles_def Let_def)
  have p7: "\<forall>ys. sorted_wrt (\<lambda>a b. sort_compare ?c a b \<le> 0) ys \<longrightarrow>
      sorted_wrt (\<lambda>a b. isDirectory b \<longrightarrow> isDirectory a) ys"
  proof (intro allI impI)
    fix ys assume "sorted_wrt (\<lambda>a b. sort_compare ?c a b \<le> 0) ys"
    then show "sorted_wrt (\<lambda>a b. isDirectory b \<longrightarrow> isDirectory a) ys"
    proof (rule sorted_wrt_mono_rel [rotated])
      fix x y assume le: "sort_compare ?c x y \<le> 0"
      show "isDirectory y \<longrightarrow> isDirectory x"
      proof (rule impI, rule ccontr)
        assume "isDirectory y" and "\<not> isDirectory x"
        then have "sort_compare ?c x y = 1"
          using sort_compare_kinds [of x y env cfg] by simp
        with le show False by simp
      qed
    qed
  qed
  have p8: "(\<forall>i j i' j'. i < j \<and> j < length ?A \<and> i' < length ?D \<and> j' < length ?D \<and>
        ?D ! i' = ?A ! i \<and> ?D ! j' = ?A ! j \<and>
        isDirectory (?A ! i) = isDirectory (?A ! j) \<and>
        sort_compare ?c (?A ! i) (?A ! j) \<noteq> 0 \<longrightarrow> j' < i') \<and>
      (\<forall>e\<in>set files. filter (\<lambda>z. sort_compare ?c e z = 0) ?D =
        filter (\<lambda>z. sort_compare ?c e z = 0) ?A)"
    if d: "direction cfg \<noteq> ''desc''"
  proof -
    have cd: "consistent_on ?d (set files)"
      using c d by (rule consistent_desc)
    have sD: "sorted_wrt (\<lambda>a b. sort_compare ?d a b \<le> 0) ?D"
      unfolding sortedFiles_def using cd by (rule sorted_array_sort) simp
    have inv: "j' < i'"
      if h: "i < j" "j < length ?A" "i' < length ?D" "j' < length ?D"
        "?D ! i' = ?A ! i" "?D ! j' = ?A ! j"
        "isDirectory (?A ! i) = isDirectory (?A ! j)"
        "sort_compare ?c (?A ! i) (?A ! j) \<noteq> 0" for i j i' j'
    proof -
      from h(1,2) have mem: "?A ! i \<in> set files" "?A ! j \<in> set files"
        using setA nth_mem [of i ?A] nth_mem [of j ?A] by auto
      from p2 h(1,2) have "sort_compare ?c (?A ! i) (?A ! j) \<le> 0"
        by (simp add: sorted_wrt_iff_nth_less)
      with h(8) have "sort_compare ?c (?A ! i) (?A ! j) < 0" by simp
      with c mem have "sort_compare ?c (?A ! j) (?A ! i) > 0" by (meson consistent_lt_gt)
      with h(7) have "sort_compare ?d (?A ! j) (?A ! i) < 0"
        by (simp add: sort_compare_desc [OF d])
      with h(5,6) have "sort_compare ?d (?D ! j') (?D ! i') < 0" by simp
      with sorted_before [OF cd _ sD h(4) h(3)] setD show ?thesis by simp
    qed
    have eq0: "sort_compare ?d e z = 0 \<longleftrightarrow> sort_compare ?c e z = 0" for e z
      using sort_compare_kinds [of e z env cfg]
      by (auto simp: sort_compare_desc [OF d])
    have "filter (\<lambda>z. sort_compare ?c e z = 0) ?D = filter (\<lambda>z. sort_compare ?c e z = 0) ?A"
      if e: "e \<in> set files" for e
    proof -
      have "filter (\<lambda>z. sort_compare ?d e z = 0) ?D = filter (\<lambda>z. sort_compare ?d e z = 0) files"
        unfolding sortedFiles_def using stable_array_sort [OF cd e] by simp
      with p3 e show ?thesis by (simp add: eq0)
    qed
    with inv show ?thesis by blast
  qed
  from p1 p2 p3 ff [of cfg] p5 p6 p7 ff [of "cfg\<lparr>direction := ''desc''\<rparr>"] p8
  show ?thesis by (intro conjI impI) blast+
qed

theorem sortedFiles_folders_first_witness:
  "consistent_on (compareFiles sample_sort_env \<lparr>key = ''name'', direction = ''asc''\<rparr>) (set sample_files) \<and>
   direction \<lparr>key = ''name'', direction = ''asc''\<rparr> \<noteq> ''desc'' \<and>
   map name (sortedFiles sample_sort_env \<lparr>key = ''name'', direction = ''asc''\<rparr> sample_files) =
     [''alpha'', ''zeta'', ''a.md'', ''b.txt''] \<and>
   map name (sortedFiles sample_sort_env \<lparr>key = ''name'', direction = ''desc''\<rparr> sample_files) =
     [''zeta'', ''alpha'', ''b.txt'', ''a.md''] \<and>
   mset (sortedFiles sample_sort_env \<lparr>key = ''name'', direction = ''asc''\<rparr> sample_files) =
     mset sample_files \<and>
   isDirectory (sortedFiles sample_sort_env \<lparr>key = ''name'', direction = ''asc''\<rparr> sample_files ! 0) \<and>
   isDirectory (sortedFiles sample_sort_env \<lparr>key = ''name'', direction = ''desc''\<rparr> sample_files ! 0)"
proof -
  let ?cfg = "\<lparr>key = ''name'', direction = ''asc''\<rparr>"
  let ?A = "sortedFiles sample_sort_env ?cfg sample_files"
  let ?D = "sortedFiles sample_sort_env \<lparr>key = ''name'', direction = ''desc''\<rparr> sample_files"
  have cons: "consistent_on (compareFiles sample_sort_env ?cfg) (set sample_files)"
    by (simp add: consistent_on_def sample_files_def sample_file_def sample_sort_env_def
        sort_compare_def compareFiles_def num_neg_def)
  have dir: "direction ?cfg \<noteq> ''desc''" by simp
  have upd: "?cfg\<lparr>direction := ''desc''\<rparr> = \<lparr>key = ''name'', direction = ''desc''\<rparr>" by simp
  have asc: "map name ?A = [''alpha'', ''zeta'', ''a.md'', ''b.txt'']"
    by (simp add: sortedFiles_def array_sort_def sample_files_def sample_file_def sample_sort_env_def
        sort_compare_def compareFiles_def num_neg_def)
  have desc: "map name ?D = [''zeta'', ''alpha'', ''b.txt'', ''a.md'']"
    by (simp add: sortedFiles_def array_sort_def sample_files_def sample_file_def sample_sort_env_def
        sort_compare_def compareFiles_def num_neg_def)
  have lenA: "length ?A = 4" using arg_cong [OF asc, of length] by simp
  have lenD: "length ?D = 4" using arg_cong [OF desc, of length] by simp
  have a1: "isDirectory (?A ! 1)"
    by (simp add: sortedFiles_def array_sort_def sample_files_def sample_file_def sample_sort_env_def
        sort_compare_def compareFiles_def num_neg_def)
  have d1: "isDirectory (?D ! 1)"
    by (simp add: sortedFiles_def array_sort_def sample_files_def sample_file_def sample_sort_env_def
        sort_compare_def compareFiles_def num_neg_def)
  note t = sortedFiles_folders_first [OF cons]
  from t have m: "mset ?A = mset sample_files" by (elim conjE)
  from t have "\<forall>i j. i < j \<and> j < length ?A \<and> isDirectory (?A ! j) \<longrightarrow> isDirectory (?A ! i)"
    by (elim conjE)
  from this [rule_format, of 0 1] lenA a1 have a0: "isDirectory (?A ! 0)" by simp
  from t dir have "\<forall>i j. i < j \<and> j < length (sortedFiles sample_sort_env (?cfg\<lparr>direction := ''desc''\<rparr>) sample_files) \<and>
      isDirectory (sortedFiles sample_sort_env (?cfg\<lparr>direction := ''desc''\<rparr>) sample_files ! j) \<longrightarrow>
      isDirectory (sortedFiles sample_sort_env (?cfg\<lparr>direction := ''desc''\<rparr>) sample_files ! i)"
    by (elim conjE) blast
  from this [rule_format, of 0 1] lenD d1 have d0: "isDirectory (?D ! 0)"
    by (simp only: upd) simp
  from cons dir asc desc m a0 d0 show ?thesis by (intro conjI)
qed

end
